theory Spec2Isabelle
  imports Complex_Main "HOL-Library.Log_Nat"
begin

section \<open>Python values used by \<open>grvt_helpers.py\<close>\<close>

subsection \<open>Exceptions\<close>

text \<open>
  Every \<open>raise\<close> of the Python runtime that the modelled functions can reach is a
  value of this type; a function that may raise returns \<open>py_error + 'a\<close>, with
  \<open>Inl\<close> for the exception.
\<close>

datatype py_error =
    ZeroDivisionError
  | OverflowError
  | ValueError
  | NameError string
  | AttributeError
  | TypeError
  | KeyError
  | IndexError
  | OSError
  | ClientError string

subsection \<open>Floats (IEEE 754 binary64, round to nearest, ties to even)\<close>

text \<open>
  A Python \<open>float\<close> is a binary64 number. A finite float is a sign (\<open>True\<close> for
  negative) and a magnitude, so that \<open>0.0\<close> and \<open>-0.0\<close> are different values;
  the other floats are the two infinities and NaN.
\<close>

datatype pyfloat = Finite bool real | Infinity bool | NaN

definition sval :: "bool \<Rightarrow> real \<Rightarrow> real" where
  "sval s m = (if s then - m else m)"

definition pow2 :: "int \<Rightarrow> real" where
  "pow2 e = (if 0 \<le> e then 2 ^ nat e else 1 / 2 ^ nat (- e))"

text \<open>\<open>ilog2 x\<close> is the binary exponent of a positive \<open>x\<close>: \<open>2^e \<le> x < 2^(e+1)\<close>.\<close>

definition ilog2 :: "real \<Rightarrow> int" where
  "ilog2 x = (if 1 \<le> x then bitlen \<lfloor>x\<rfloor> - 1 else - bitlen (\<lceil>1 / x\<rceil> - 1))"

text \<open>Rounding to the nearest integer, ties to the even one.\<close>

definition round_half_even :: "real \<Rightarrow> int" where
  "round_half_even x =
     (let f = \<lfloor>x\<rfloor>; d = x - of_int f in
      if d < 1 / 2 then f
      else if 1 / 2 < d then f + 1
      else if even f then f else f + 1)"

text \<open>
  The unit in the last place for a positive \<open>x\<close>: 53 significant bits, and never
  below \<open>2^-1074\<close>, the spacing of the subnormal numbers.
\<close>

definition ulp :: "real \<Rightarrow> real" where
  "ulp x = pow2 (max (ilog2 x) (- 1022) - 52)"

text \<open>
  \<open>round_binary64 x\<close> rounds the magnitude \<open>x \<ge> 0\<close> to the nearest binary64
  magnitude, a whole number of units in the last place, and gives \<open>None\<close> when the
  rounded magnitude reaches \<open>2^1024\<close> (overflow).
\<close>

definition round_binary64 :: "real \<Rightarrow> real option" where
  "round_binary64 x =
     (if x = 0 then Some 0
      else let r = of_int (round_half_even (x / ulp x)) * ulp x
           in if r < 2 ^ 1024 then Some r else None)"

definition fl_round :: "bool \<Rightarrow> real \<Rightarrow> pyfloat" where
  "fl_round s x = (case round_binary64 x of None \<Rightarrow> Infinity s | Some r \<Rightarrow> Finite s r)"

text \<open>A float value is well formed when its magnitude is a binary64 magnitude.\<close>

fun is_float :: "pyfloat \<Rightarrow> bool" where
  "is_float (Finite s m) = (0 \<le> m \<and> round_binary64 m = Some m)"
| "is_float (Infinity s) = True"
| "is_float NaN = True"

text \<open>A non-negative decimal literal of the source text, such as \<open>0.5\<close>.\<close>

definition float_literal :: "real \<Rightarrow> pyfloat" where
  "float_literal x = fl_round False x"

text \<open>Truth value of a float: only the two zeros are falsy.\<close>

fun float_truthy :: "pyfloat \<Rightarrow> bool" where
  "float_truthy (Finite s m) = (m \<noteq> 0)"
| "float_truthy (Infinity s) = True"
| "float_truthy NaN = True"

text \<open>Truth value of an optional price: \<open>None\<close> is falsy.\<close>

fun truthy :: "pyfloat option \<Rightarrow> bool" where
  "truthy None = False"
| "truthy (Some x) = float_truthy x"

text \<open>Comparisons: every comparison with NaN is false.\<close>

fun fl_lt :: "pyfloat \<Rightarrow> pyfloat \<Rightarrow> bool" where
  "fl_lt NaN y = False"
| "fl_lt x NaN = False"
| "fl_lt (Infinity s) (Infinity s') = (s \<and> \<not> s')"
| "fl_lt (Infinity s) (Finite s' m') = s"
| "fl_lt (Finite s m) (Infinity s') = (\<not> s')"
| "fl_lt (Finite s m) (Finite s' m') = (sval s m < sval s' m')"

fun fl_le :: "pyfloat \<Rightarrow> pyfloat \<Rightarrow> bool" where
  "fl_le NaN y = False"
| "fl_le x NaN = False"
| "fl_le (Infinity s) (Infinity s') = (s \<or> \<not> s')"
| "fl_le (Infinity s) (Finite s' m') = s"
| "fl_le (Finite s m) (Infinity s') = (\<not> s')"
| "fl_le (Finite s m) (Finite s' m') = (sval s m \<le> sval s' m')"

definition fl_gt :: "pyfloat \<Rightarrow> pyfloat \<Rightarrow> bool" where
  "fl_gt x y = fl_lt y x"

definition fl_ge :: "pyfloat \<Rightarrow> pyfloat \<Rightarrow> bool" where
  "fl_ge x y = fl_le y x"

text \<open>\<open>x == y\<close> on floats: by value, the two zeros are equal, NaN equals nothing.\<close>

definition fl_eq :: "pyfloat \<Rightarrow> pyfloat \<Rightarrow> bool" where
  "fl_eq x y = (fl_le x y \<and> fl_le y x)"

text \<open>
  True division \<open>x / y\<close>: a zero divisor raises before anything else is looked at.
\<close>

fun fl_div :: "pyfloat \<Rightarrow> pyfloat \<Rightarrow> py_error + pyfloat" where
  "fl_div x (Finite s m) =
     (if m = 0 then Inl ZeroDivisionError
      else (case x of
              Finite s' m' \<Rightarrow> Inr (fl_round (s' \<noteq> s) (m' / m))
            | Infinity s' \<Rightarrow> Inr (Infinity (s' \<noteq> s))
            | NaN \<Rightarrow> Inr NaN))"
| "fl_div (Finite s' m') (Infinity s) = Inr (Finite (s' \<noteq> s) 0)"
| "fl_div (Infinity s') (Infinity s) = Inr NaN"
| "fl_div NaN (Infinity s) = Inr NaN"
| "fl_div x NaN = Inr NaN"

fun fl_mul :: "pyfloat \<Rightarrow> pyfloat \<Rightarrow> pyfloat" where
  "fl_mul (Finite s m) (Finite s' m') = fl_round (s \<noteq> s') (m * m')"
| "fl_mul (Finite s m) (Infinity s') = (if m = 0 then NaN else Infinity (s \<noteq> s'))"
| "fl_mul (Infinity s) (Finite s' m') = (if m' = 0 then NaN else Infinity (s \<noteq> s'))"
| "fl_mul (Infinity s) (Infinity s') = Infinity (s \<noteq> s')"
| "fl_mul NaN y = NaN"
| "fl_mul x NaN = NaN"

text \<open>
  \<open>round(x)\<close> with one argument returns an \<open>int\<close>, rounding ties to even; it raises
  \<open>OverflowError\<close> on an infinity and \<open>ValueError\<close> on NaN.
\<close>

fun py_round :: "pyfloat \<Rightarrow> py_error + int" where
  "py_round (Finite s m) = Inr (if s then - round_half_even m else round_half_even m)"
| "py_round (Infinity s) = Inl OverflowError"
| "py_round NaN = Inl ValueError"

text \<open>
  An \<open>int\<close> operand of a float operation is converted to the nearest float;
  an \<open>int\<close> too large for a float raises \<open>OverflowError\<close>.
\<close>

definition int_to_float :: "int \<Rightarrow> py_error + pyfloat" where
  "int_to_float n =
     (case round_binary64 \<bar>of_int n\<bar> of
        None \<Rightarrow> Inl OverflowError
      | Some r \<Rightarrow> Inr (Finite (n < 0) r))"

subsection \<open>Strings\<close>

definition digit_char :: "nat \<Rightarrow> char" where
  "digit_char d = ''0123456789'' ! (d mod 10)"

function str_nat :: "nat \<Rightarrow> string" where
  "str_nat n = (if n < 10 then [digit_char n] else str_nat (n div 10) @ [digit_char (n mod 10)])"
  by pat_completeness auto
termination
  by (relation "measure id") auto

declare str_nat.simps [simp del]

text \<open>
  The format specification \<open>.2f\<close>: the exact value of the float, rounded to two
  decimals with ties to even, the sign kept even when the digits are all zero.
\<close>

fun format_2f :: "pyfloat \<Rightarrow> string" where
  "format_2f (Finite s m) =
     (let n = nat (round_half_even (m * 100)) in
      (if s then ''-'' else '''') @ str_nat (n div 100) @ ''.''
        @ [digit_char (n mod 100 div 10), digit_char (n mod 10)])"
| "format_2f (Infinity s) = (if s then ''-inf'' else ''inf'')"
| "format_2f NaN = ''nan''"

text \<open>\<open>str.lower()\<close> on the ASCII letters.\<close>

definition lower_char :: "char \<Rightarrow> char" where
  "lower_char c =
     (let n = of_char c :: nat in if 65 \<le> n \<and> n \<le> 90 then char_of (n + 32) else c)"

definition py_lower :: "string \<Rightarrow> string" where
  "py_lower s = map lower_char s"

section \<open>Take-profit / stop-loss helpers\<close>

subsection \<open>\<open>round_to_tick_size\<close>\<close>

text \<open>\<open>return round(price / tick_size) * tick_size\<close>\<close>

definition round_to_tick_size :: "pyfloat \<Rightarrow> pyfloat \<Rightarrow> py_error + pyfloat" where
  "round_to_tick_size price tick_size =
     (case fl_div price tick_size of
        Inl e \<Rightarrow> Inl e
      | Inr q \<Rightarrow>
          (case py_round q of
             Inl e \<Rightarrow> Inl e
           | Inr n \<Rightarrow>
               (case int_to_float n of
                  Inl e \<Rightarrow> Inl e
                | Inr nf \<Rightarrow> Inr (fl_mul nf tick_size))))"

text \<open>
  Two outcomes of \<open>round_to_tick_size\<close> are the same when both raise the same
  exception, or both return and the values are equal under \<open>==\<close> (or both NaN).
\<close>

definition same_float :: "pyfloat \<Rightarrow> pyfloat \<Rightarrow> bool" where
  "same_float x y = (fl_eq x y \<or> (x = NaN \<and> y = NaN))"

fun same_outcome :: "py_error + pyfloat \<Rightarrow> py_error + pyfloat \<Rightarrow> bool" where
  "same_outcome (Inl e) (Inl e') = (e = e')"
| "same_outcome (Inr x) (Inr y) = same_float x y"
| "same_outcome (Inl e) (Inr y) = False"
| "same_outcome (Inr x) (Inl e') = False"

subsection \<open>\<open>validate_tpsl_prices\<close>\<close>

text \<open>The block under \<open># Validate TP\<close>, for a truthy take-profit price.\<close>

definition validate_tp :: "bool \<Rightarrow> pyfloat \<Rightarrow> pyfloat \<Rightarrow> string option" where
  "validate_tp is_long last_price take_profit_price =
     (if is_long then
        (if fl_le take_profit_price last_price
         then Some (''TP for LONG must be > last price ($'' @ format_2f last_price @ '')'')
         else None)
      else
        (if fl_ge take_profit_price last_price
         then Some (''TP for SHORT must be < last price ($'' @ format_2f last_price @ '')'')
         else None))"

text \<open>The block under \<open># Validate SL\<close>, for a truthy stop-loss price.\<close>

definition validate_sl :: "bool \<Rightarrow> pyfloat \<Rightarrow> pyfloat \<Rightarrow> string option" where
  "validate_sl is_long last_price stop_loss_price =
     (if is_long then
        (if fl_ge stop_loss_price last_price
         then Some (''SL for LONG must be < last price ($'' @ format_2f last_price @ '')'')
         else None)
      else
        (if fl_le stop_loss_price last_price
         then Some (''SL for SHORT must be > last price ($'' @ format_2f last_price @ '')'')
         else None))"

definition validate_tpsl_prices ::
  "string \<Rightarrow> pyfloat \<Rightarrow> pyfloat option \<Rightarrow> pyfloat option \<Rightarrow> bool \<times> string" where
  "validate_tpsl_prices side last_price take_profit_price stop_loss_price =
     (if \<not> truthy take_profit_price \<and> \<not> truthy stop_loss_price then (True, '''')
      else
        let is_long = (py_lower side = ''sell'') in
        case (case take_profit_price of
                None \<Rightarrow> None
              | Some tp \<Rightarrow> if float_truthy tp then validate_tp is_long last_price tp else None) of
          Some msg \<Rightarrow> (False, msg)
        | None \<Rightarrow>
            (case (case stop_loss_price of
                     None \<Rightarrow> None
                   | Some sl \<Rightarrow>
                       if float_truthy sl then validate_sl is_long last_price sl else None) of
               Some msg \<Rightarrow> (False, msg)
             | None \<Rightarrow> (True, '''')))"

subsection \<open>\<open>str\<close> of a float\<close>

definition pow10 :: "int \<Rightarrow> real" where
  "pow10 e = (if 0 \<le> e then 10 ^ nat e else 1 / 10 ^ nat (- e))"

text \<open>\<open>ilog10 x\<close> is the decimal exponent of a positive \<open>x\<close>: \<open>10^e \<le> x < 10^(e+1)\<close>.\<close>

definition ilog10 :: "real \<Rightarrow> int" where
  "ilog10 x =
     (if 1 \<le> x then int (floorlog 10 (nat \<lfloor>x\<rfloor>)) - 1
      else - int (floorlog 10 (nat (\<lceil>1 / x\<rceil> - 1))))"

text \<open>
  \<open>str\<close> of a float is its \<open>repr\<close>: the shortest decimal that reads back as the
  same float and, among those, the one nearest to it. With \<open>k\<close> significant
  digits the two decimals next to \<open>m\<close> are \<open>c1\<close> (the nearer) and \<open>c2\<close>, in
  units of \<open>10^p\<close>; seventeen digits always suffice. The result is the pair
  \<open>(c, p)\<close> with \<open>c * 10^p\<close> the decimal chosen.
\<close>

definition reads_back :: "real \<Rightarrow> real \<Rightarrow> bool" where
  "reads_back m d = (round_binary64 d = Some m)"

fun shortest_digits :: "nat \<Rightarrow> nat \<Rightarrow> real \<Rightarrow> int \<times> int" where
  "shortest_digits fuel k m =
     (let p = ilog10 m + 1 - int k;
          c1 = round_half_even (m / pow10 p);
          c2 = (if of_int c1 \<le> m / pow10 p then c1 + 1 else c1 - 1)
      in if reads_back m (of_int c1 * pow10 p) then (c1, p)
         else if reads_back m (of_int c2 * pow10 p) then (c2, p)
         else (case fuel of 0 \<Rightarrow> (c1, p) | Suc fuel' \<Rightarrow> shortest_digits fuel' (Suc k) m))"

declare shortest_digits.simps [simp del]

definition strip_zeros :: "string \<Rightarrow> string" where
  "strip_zeros ds = rev (dropWhile (\<lambda>c. c = CHR ''0'') (rev ds))"

text \<open>
  The layout of \<open>repr\<close>: \<open>ds\<close> are the significant digits and \<open>decpt\<close> the position
  of the decimal point (the value is \<open>0.ds * 10^decpt\<close>). Exponent notation is used
  when \<open>decpt \<le> -4\<close> or \<open>decpt > 16\<close>; otherwise the digits are laid out around
  the point and \<open>.0\<close> is added when there is no fractional digit.
\<close>

definition repr_layout :: "string \<Rightarrow> int \<Rightarrow> string" where
  "repr_layout ds decpt =
     (if decpt \<le> - 4 \<or> 16 < decpt then
        (let e = decpt - 1;
             es = str_nat (nat \<bar>e\<bar>)
         in take 1 ds @ (if 1 < length ds then ''.'' @ drop 1 ds else [])
            @ ''e'' @ (if e < 0 then ''-'' else ''+'')
            @ (if length es < 2 then ''0'' @ es else es))
      else if decpt \<le> 0 then ''0.'' @ replicate (nat (- decpt)) CHR ''0'' @ ds
      else if int (length ds) \<le> decpt then
        ds @ replicate (nat (decpt - int (length ds))) CHR ''0'' @ ''.0''
      else take (nat decpt) ds @ ''.'' @ drop (nat decpt) ds)"

fun py_str_float :: "pyfloat \<Rightarrow> string" where
  "py_str_float (Finite s m) =
     (if s then ''-'' else []) @
     (if m = 0 then ''0.0''
      else (case shortest_digits 16 1 m of
              (c, p) \<Rightarrow>
                (let ds = str_nat (nat c)
                 in repr_layout (strip_zeros ds) (int (length ds) + p))))"
| "py_str_float (Infinity s) = (if s then ''-inf'' else ''inf'')"
| "py_str_float NaN = ''nan''"

subsection \<open>\<open>create_tpsl_params\<close>\<close>

text \<open>
  Python values as far as the helpers handle them: the values stored in the
  dictionary that \<open>create_tpsl_params\<close> returns, and the order and position records
  of the exchange client. A dictionary keeps its keys in insertion order.
\<close>

datatype pyval =
    PNone
  | PBool bool
  | PInt int
  | PFloat pyfloat
  | PStr string
  | PList "pyval list"
  | PDict "(string \<times> pyval) list"

type_synonym pydict = "(string \<times> pyval) list"

definition dict_keys :: "pydict \<Rightarrow> string set" where
  "dict_keys d = set (map fst d)"

text \<open>The dictionary literal stored under \<open>take_profit\<close> or \<open>stop_loss\<close>.\<close>

definition trigger_entry :: "string \<Rightarrow> pyfloat \<Rightarrow> string \<Rightarrow> bool \<Rightarrow> pyval" where
  "trigger_entry trigger_type price trigger_by close_position =
     PDict [(''trigger'',
       PDict [(''trigger_type'', PStr trigger_type),
              (''tpsl'',
                 PDict [(''trigger_price'', PStr (py_str_float price)),
                        (''trigger_by'', PStr trigger_by),
                        (''close_position'', PBool close_position)])])]"

text \<open>
  \<open>if price: price = round_to_tick_size(price, tick_size)\<close>: a falsy price is left
  as it is, a truthy one is replaced by its rounding, which may raise.
\<close>

definition round_if_truthy :: "pyfloat option \<Rightarrow> pyfloat \<Rightarrow> py_error + pyfloat option" where
  "round_if_truthy price tick_size =
     (case price of
        None \<Rightarrow> Inr None
      | Some p \<Rightarrow>
          if float_truthy p then
            (case round_to_tick_size p tick_size of Inl e \<Rightarrow> Inl e | Inr r \<Rightarrow> Inr (Some r))
          else Inr (Some p))"

text \<open>\<open>if price: params[key] = {...}\<close>, on the price after rounding.\<close>

definition add_entry ::
  "string \<Rightarrow> string \<Rightarrow> pyfloat option \<Rightarrow> string \<Rightarrow> bool \<Rightarrow> pydict \<Rightarrow> pydict" where
  "add_entry key trigger_type price trigger_by close_position params =
     (case price of
        None \<Rightarrow> params
      | Some p \<Rightarrow>
          if float_truthy p
          then params @ [(key, trigger_entry trigger_type p trigger_by close_position)]
          else params)"

definition create_tpsl_params ::
  "string \<Rightarrow> pyfloat option \<Rightarrow> pyfloat option \<Rightarrow> string \<Rightarrow> bool \<Rightarrow> pyfloat
     \<Rightarrow> py_error + pydict" where
  "create_tpsl_params side take_profit_price stop_loss_price trigger_by close_position tick_size =
     (case round_if_truthy take_profit_price tick_size of
        Inl e \<Rightarrow> Inl e
      | Inr tp \<Rightarrow>
          (case round_if_truthy stop_loss_price tick_size of
             Inl e \<Rightarrow> Inl e
           | Inr sl \<Rightarrow>
               Inr (add_entry ''stop_loss'' ''STOP_LOSS'' sl trigger_by close_position
                     (add_entry ''take_profit'' ''TAKE_PROFIT'' tp trigger_by close_position []))))"

section \<open>Rate limiting\<close>

subsection \<open>More float operations\<close>

text \<open>
  Addition. An exact sum of zero is \<open>-0.0\<close> only when both operands are negative
  zeros; opposite infinities add up to NaN.
\<close>

fun fl_add :: "pyfloat \<Rightarrow> pyfloat \<Rightarrow> pyfloat" where
  "fl_add (Finite s m) (Finite s' m') =
     (let v = sval s m + sval s' m' in
      if v = 0 then Finite (s \<and> s') 0 else fl_round (v < 0) \<bar>v\<bar>)"
| "fl_add (Finite s m) (Infinity s') = Infinity s'"
| "fl_add (Infinity s) (Finite s' m') = Infinity s"
| "fl_add (Infinity s) (Infinity s') = (if s = s' then Infinity s else NaN)"
| "fl_add NaN y = NaN"
| "fl_add x NaN = NaN"

fun fl_neg :: "pyfloat \<Rightarrow> pyfloat" where
  "fl_neg (Finite s m) = Finite (\<not> s) m"
| "fl_neg (Infinity s) = Infinity (\<not> s)"
| "fl_neg NaN = NaN"

definition fl_sub :: "pyfloat \<Rightarrow> pyfloat \<Rightarrow> pyfloat" where
  "fl_sub x y = fl_add x (fl_neg y)"

text \<open>A float compared with an \<open>int\<close>: the comparison is exact, nothing is rounded.\<close>

fun fl_lt_int :: "pyfloat \<Rightarrow> int \<Rightarrow> bool" where
  "fl_lt_int (Finite s m) n = (sval s m < of_int n)"
| "fl_lt_int (Infinity s) n = s"
| "fl_lt_int NaN n = False"

fun fl_gt_int :: "pyfloat \<Rightarrow> int \<Rightarrow> bool" where
  "fl_gt_int (Finite s m) n = (of_int n < sval s m)"
| "fl_gt_int (Infinity s) n = (\<not> s)"
| "fl_gt_int NaN n = False"

subsection \<open>Clock readings\<close>

text \<open>
  A \<open>datetime\<close> returned by \<open>datetime.now()\<close> is a number of microseconds on the
  (naive) time line, and the difference of two of them is a \<open>timedelta\<close>, again a
  number of microseconds. \<open>timedelta.total_seconds()\<close> divides the microseconds by
  \<open>10^6\<close>, a true division of two \<open>int\<close>s, correctly rounded. (Datetimes lie
  between the years 1 and 9999, so the quotient is far from the overflow that
  \<open>fl_round\<close> maps to an infinity.)
\<close>

type_synonym datetime = int

definition total_seconds :: "int \<Rightarrow> pyfloat" where
  "total_seconds us = fl_round (us < 0) (\<bar>of_int us\<bar> / 1000000)"

text \<open>\<open>min\<close> of a list raises \<open>ValueError\<close> on the empty list.\<close>

fun py_min :: "int list \<Rightarrow> py_error + int" where
  "py_min [] = Inl ValueError"
| "py_min (x # xs) = Inr (fold min xs x)"

subsection \<open>Sleeping\<close>

text \<open>
  \<open>time.sleep(secs)\<close> with a float argument, as the CPython runtime does it. NaN
  raises \<open>ValueError\<close>. Otherwise the seconds are multiplied by \<open>1e9\<close> in binary64
  and the product is rounded away from zero to a whole number of nanoseconds; a
  number outside the signed 64-bit range (an infinity included) raises
  \<open>OverflowError\<close>.
\<close>

definition sleep_nanoseconds :: "pyfloat \<Rightarrow> py_error + int" where
  "sleep_nanoseconds secs =
     (case secs of
        NaN \<Rightarrow> Inl ValueError
      | Infinity s \<Rightarrow> Inl OverflowError
      | Finite s m \<Rightarrow>
          (case fl_mul secs (Finite False 1000000000) of
             Finite s' d \<Rightarrow>
               (let t = (if s' then - \<lceil>d\<rceil> else \<lceil>d\<rceil>)
                in if - (2 ^ 63) \<le> t \<and> t < 2 ^ 63 then Inr t else Inl OverflowError)
           | Infinity s' \<Rightarrow> Inl OverflowError
           | NaN \<Rightarrow> Inl OverflowError))"

text \<open>
  A negative number of nanoseconds raises \<open>ValueError\<close>. The call then blocks until
  the monotonic clock, which reads \<open>monotonic\<close> nanoseconds at the call, reaches
  \<open>monotonic\<close> plus the timeout; a deadline beyond the signed 64-bit range of that
  clock is refused by the system and the call raises \<open>OSError\<close>. Otherwise the call
  returns when the time has passed. A signal that arrives during the sleep is not
  part of the model.
\<close>

definition time_sleep :: "int \<Rightarrow> pyfloat \<Rightarrow> py_error + unit" where
  "time_sleep monotonic secs =
     (case sleep_nanoseconds secs of
        Inl e \<Rightarrow> Inl e
      | Inr t \<Rightarrow>
          if t < 0 then Inl ValueError
          else if monotonic + t < 2 ^ 63 then Inr ()
          else Inl OSError)"

subsection \<open>\<open>class RateLimiter\<close>\<close>

record rate_limiter =
  max_requests :: int
  time_window :: int
  requests :: "datetime list"

text \<open>\<open>__init__\<close>\<close>

definition RateLimiter :: "int \<Rightarrow> int \<Rightarrow> rate_limiter" where
  "RateLimiter max_requests' time_window' =
     \<lparr>max_requests = max_requests', time_window = time_window', requests = []\<rparr>"

text \<open>
  The test of the list comprehension in \<open>can_make_request\<close>:
  \<open>(now - req_time).total_seconds() < self.time_window\<close>.
\<close>

definition in_window :: "rate_limiter \<Rightarrow> datetime \<Rightarrow> datetime \<Rightarrow> bool" where
  "in_window self now req_time =
     fl_lt_int (total_seconds (now - req_time)) (time_window self)"

text \<open>
  \<open>can_make_request\<close> reads the clock once (\<open>now\<close>), replaces the stored list by
  the pruned one and returns the answer together with the updated object.
\<close>

definition can_make_request :: "rate_limiter \<Rightarrow> datetime \<Rightarrow> bool \<times> rate_limiter" where
  "can_make_request self now =
     (let self' = self\<lparr>requests := filter (in_window self now) (requests self)\<rparr>
      in (int (length (requests self')) < max_requests self', self'))"

definition record_request :: "rate_limiter \<Rightarrow> datetime \<Rightarrow> rate_limiter" where
  "record_request self now = self\<lparr>requests := requests self @ [now]\<rparr>"

text \<open>
  \<open>wait_if_needed\<close> reads the clock in \<open>can_make_request\<close> (\<open>now1\<close>) and once more
  for the waiting time (\<open>now2\<close>); \<open>monotonic\<close> is the reading of the monotonic
  clock when \<open>time.sleep\<close> is called. The result carries \<open>Some d\<close> when the function
  has slept for \<open>d\<close> seconds and \<open>None\<close> when it returns without sleeping; an
  exception of \<open>time.sleep\<close> leaves the function.
\<close>

definition wait_if_needed ::
  "rate_limiter \<Rightarrow> datetime \<Rightarrow> datetime \<Rightarrow> int
     \<Rightarrow> py_error + (pyfloat option \<times> rate_limiter)" where
  "wait_if_needed self now1 now2 monotonic =
     (case can_make_request self now1 of
        (ok, self') \<Rightarrow>
          if ok then Inr (None, self')
          else
            (case py_min (requests self') of
               Inl e \<Rightarrow> Inl e
             | Inr oldest_request \<Rightarrow>
                 (case int_to_float (time_window self') of
                    Inl e \<Rightarrow> Inl e
                  | Inr w \<Rightarrow>
                      (let wait_time = fl_sub w (total_seconds (now2 - oldest_request))
                       in if fl_gt_int wait_time 0
                          then (case time_sleep monotonic
                                       (fl_add wait_time (float_literal (1 / 10))) of
                                  Inl e \<Rightarrow> Inl e
                                | Inr u \<Rightarrow>
                                    Inr (Some (fl_add wait_time (float_literal (1 / 10))),
                                         self'))
                          else Inr (None, self')))))"

section \<open>Emergency functions\<close>

text \<open>
  The module defines \<open>emergency_cancel_all\<close> and \<open>emergency_close_all\<close> twice; the
  second definitions (at the end of the file) replace the first ones when the module
  is loaded, and are the ones modelled here.
\<close>

subsection \<open>Operations on Python values\<close>

fun pyval_truthy :: "pyval \<Rightarrow> bool" where
  "pyval_truthy PNone = False"
| "pyval_truthy (PBool b) = b"
| "pyval_truthy (PInt n) = (n \<noteq> 0)"
| "pyval_truthy (PFloat x) = float_truthy x"
| "pyval_truthy (PStr s) = (s \<noteq> [])"
| "pyval_truthy (PList xs) = (xs \<noteq> [])"
| "pyval_truthy (PDict kvs) = (kvs \<noteq> [])"

text \<open>\<open>x.get(key, default)\<close>: only a dictionary has the method.\<close>

fun py_get :: "pyval \<Rightarrow> string \<Rightarrow> pyval \<Rightarrow> py_error + pyval" where
  "py_get (PDict kvs) key dflt = Inr (case map_of kvs key of Some v \<Rightarrow> v | None \<Rightarrow> dflt)"
| "py_get PNone key dflt = Inl AttributeError"
| "py_get (PBool b) key dflt = Inl AttributeError"
| "py_get (PInt n) key dflt = Inl AttributeError"
| "py_get (PFloat x) key dflt = Inl AttributeError"
| "py_get (PStr s) key dflt = Inl AttributeError"
| "py_get (PList xs) key dflt = Inl AttributeError"

text \<open>\<open>x[0]\<close>\<close>

fun py_index0 :: "pyval \<Rightarrow> py_error + pyval" where
  "py_index0 (PList xs) = (case xs of [] \<Rightarrow> Inl IndexError | x # _ \<Rightarrow> Inr x)"
| "py_index0 (PStr s) = (case s of [] \<Rightarrow> Inl IndexError | c # _ \<Rightarrow> Inr (PStr [c]))"
| "py_index0 (PDict kvs) = Inl KeyError"
| "py_index0 PNone = Inl TypeError"
| "py_index0 (PBool b) = Inl TypeError"
| "py_index0 (PInt n) = Inl TypeError"
| "py_index0 (PFloat x) = Inl TypeError"

text \<open>\<open>x.upper()\<close>: only a string has the method (its value is only printed).\<close>

definition upper_char :: "char \<Rightarrow> char" where
  "upper_char c =
     (let n = of_char c :: nat in if 97 \<le> n \<and> n \<le> 122 then char_of (n - 32) else c)"

fun py_upper :: "pyval \<Rightarrow> py_error + pyval" where
  "py_upper (PStr s) = Inr (PStr (map upper_char s))"
| "py_upper PNone = Inl AttributeError"
| "py_upper (PBool b) = Inl AttributeError"
| "py_upper (PInt n) = Inl AttributeError"
| "py_upper (PFloat x) = Inl AttributeError"
| "py_upper (PList xs) = Inl AttributeError"
| "py_upper (PDict kvs) = Inl AttributeError"

subsection \<open>The exchange client\<close>

text \<open>
  The client is an external object with a state of its own (\<open>'c\<close>): every call
  returns a result or raises, and leaves the client in a new state. \<open>config\<close> is the
  dictionary \<open>client.config\<close>. The sequences that \<open>fetch_open_orders\<close> and
  \<open>fetch_positions\<close> return are lists of arbitrary values.
\<close>

record 'c client =
  fetch_open_orders :: "'c \<Rightarrow> (py_error + pyval list) \<times> 'c"
  cancel_order :: "pyval \<Rightarrow> 'c \<Rightarrow> (py_error + pyval) \<times> 'c"
  fetch_positions :: "'c \<Rightarrow> (py_error + pyval list) \<times> 'c"
  create_order :: "pyval \<Rightarrow> string \<Rightarrow> string \<Rightarrow> pyfloat \<Rightarrow> pyval \<Rightarrow> 'c \<Rightarrow> (py_error + pyval) \<times> 'c"
  config :: pyval

subsection \<open>\<open>emergency_cancel_all\<close>\<close>

text \<open>\<open>order_id = order.get('order_id', order.get('id'))\<close>\<close>

definition get_order_id :: "pyval \<Rightarrow> py_error + pyval" where
  "get_order_id order =
     (case py_get order ''id'' PNone of
        Inl e \<Rightarrow> Inl e
      | Inr d \<Rightarrow> py_get order ''order_id'' d)"

text \<open>
  The symbol and the side that the loop prints before it cancels; reading them can
  raise, and then the order is not cancelled.
\<close>

definition order_symbol_side :: "pyval \<Rightarrow> py_error + (pyval \<times> pyval)" where
  "order_symbol_side order =
     (case py_get order ''legs'' (PList []) of
        Inl e \<Rightarrow> Inl e
      | Inr legs \<Rightarrow>
          if pyval_truthy legs then
            (case py_index0 legs of
               Inl e \<Rightarrow> Inl e
             | Inr leg \<Rightarrow>
                 (case py_get leg ''instrument'' (PStr ''N/A'') of
                    Inl e \<Rightarrow> Inl e
                  | Inr symbol \<Rightarrow>
                      (case py_get leg ''is_buying_asset'' (PBool True) of
                         Inl e \<Rightarrow> Inl e
                       | Inr is_buying \<Rightarrow>
                           Inr (symbol,
                                PStr (if pyval_truthy is_buying then ''BUY'' else ''SELL'')))))
          else
            (case py_get order ''symbol'' (PStr ''N/A'') of
               Inl e \<Rightarrow> Inl e
             | Inr symbol \<Rightarrow>
                 (case py_get order ''side'' (PStr ''N/A'') of
                    Inl e \<Rightarrow> Inl e
                  | Inr side \<Rightarrow>
                      (case py_upper side of
                         Inl e \<Rightarrow> Inl e
                       | Inr side' \<Rightarrow> Inr (symbol, side')))))"

text \<open>
  \<open>result is False or result is None or (isinstance(result, dict) and not result)\<close>
\<close>

definition cancel_failed :: "pyval \<Rightarrow> bool" where
  "cancel_failed result = (result = PBool False \<or> result = PNone \<or> result = PDict [])"

text \<open>
  The body of the loop, inside its own \<open>try\<close>: the result says whether \<open>count\<close> is
  incremented. Every exception ends the iteration and nothing else.
\<close>

definition cancel_one :: "'c client \<Rightarrow> pyval \<Rightarrow> 'c \<Rightarrow> bool \<times> 'c" where
  "cancel_one client order c =
     (case get_order_id order of
        Inl e \<Rightarrow> (False, c)
      | Inr order_id \<Rightarrow>
          if \<not> pyval_truthy order_id then (False, c)
          else
            (case order_symbol_side order of
               Inl e \<Rightarrow> (False, c)
             | Inr symbol_side \<Rightarrow>
                 (case cancel_order client order_id c of
                    (Inl e, c') \<Rightarrow> (False, c')
                  | (Inr result, c') \<Rightarrow> (\<not> cancel_failed result, c'))))"

fun cancel_loop :: "'c client \<Rightarrow> pyval list \<Rightarrow> 'c \<Rightarrow> int \<Rightarrow> int \<times> 'c" where
  "cancel_loop client [] c count = (count, c)"
| "cancel_loop client (order # rest) c count =
     (case cancel_one client order c of
        (ok, c') \<Rightarrow> cancel_loop client rest c' (if ok then count + 1 else count))"

definition emergency_cancel_all :: "'c client \<Rightarrow> 'c \<Rightarrow> int \<times> 'c" where
  "emergency_cancel_all client c =
     (case fetch_open_orders client c of
        (Inl e, c') \<Rightarrow> (0, c')
      | (Inr open_orders, c') \<Rightarrow>
          if open_orders = [] then (0, c')
          else cancel_loop client open_orders c' 0)"

subsection \<open>\<open>emergency_close_all\<close>\<close>

text \<open>
  The function calls \<open>safe_float\<close>, a global name. What a call of a global name does
  depends on the binding of the name in the module: with no binding, evaluating the
  name raises \<open>NameError\<close>, before any argument is evaluated.
\<close>

definition call_global :: "string \<Rightarrow> ('a \<Rightarrow> 'b) option \<Rightarrow> 'a \<Rightarrow> py_error + 'b" where
  "call_global name binding arg =
     (case binding of None \<Rightarrow> Inl (NameError name) | Some f \<Rightarrow> Inr (f arg))"

text \<open>
  \<open>grvt_helpers.py\<close> binds no global \<open>safe_float\<close>: the only function of that name
  is defined inside \<open>create_positions_table\<close> and is local to it, no import brings
  the name in, and it is no builtin.
\<close>

definition safe_float_global :: "(pyval \<Rightarrow> pyfloat) option" where
  "safe_float_global = None"

text \<open>\<open>x != 0\<close>, \<open>x == 0\<close> and \<open>x > 0\<close> for a float \<open>x\<close>.\<close>

definition fl_nonzero :: "pyfloat \<Rightarrow> bool" where
  "fl_nonzero x = (\<not> fl_eq x (Finite False 0))"

fun fl_abs :: "pyfloat \<Rightarrow> pyfloat" where
  "fl_abs (Finite s m) = Finite False m"
| "fl_abs (Infinity s) = Infinity False"
| "fl_abs NaN = NaN"

text \<open>
  \<open>[p for p in positions if safe_float(p.get('size', 0)) != 0]\<close>, with \<open>sf\<close> the
  binding of \<open>safe_float\<close>.
\<close>

fun active_positions :: "(pyval \<Rightarrow> pyfloat) option \<Rightarrow> pyval list \<Rightarrow> py_error + pyval list" where
  "active_positions sf [] = Inr []"
| "active_positions sf (p # ps) =
     (case sf of
        None \<Rightarrow> Inl (NameError ''safe_float'')
      | Some f \<Rightarrow>
          (case py_get p ''size'' (PInt 0) of
             Inl e \<Rightarrow> Inl e
           | Inr v \<Rightarrow>
               (case active_positions sf ps of
                  Inl e \<Rightarrow> Inl e
                | Inr rest \<Rightarrow> Inr (if fl_nonzero (f v) then p # rest else rest))))"

text \<open>The symbol and the size of a position, from its first leg or from the record.\<close>

definition position_symbol_size ::
  "(pyval \<Rightarrow> pyfloat) option \<Rightarrow> pyval \<Rightarrow> py_error + (pyval \<times> pyfloat)" where
  "position_symbol_size sf pos =
     (case py_get pos ''legs'' (PList []) of
        Inl e \<Rightarrow> Inl e
      | Inr legs \<Rightarrow>
          if pyval_truthy legs then
            (case py_index0 legs of
               Inl e \<Rightarrow> Inl e
             | Inr leg \<Rightarrow>
                 (case py_get leg ''instrument'' (PStr ''N/A'') of
                    Inl e \<Rightarrow> Inl e
                  | Inr symbol \<Rightarrow>
                      (case sf of
                         None \<Rightarrow> Inl (NameError ''safe_float'')
                       | Some f \<Rightarrow>
                           (case py_get leg ''size'' (PInt 0) of
                              Inl e \<Rightarrow> Inl e
                            | Inr v \<Rightarrow> Inr (symbol, f v)))))
          else
            (case py_get pos ''instrument'' (PStr ''N/A'') of
               Inl e \<Rightarrow> Inl e
             | Inr d \<Rightarrow>
                 (case py_get pos ''symbol'' d of
                    Inl e \<Rightarrow> Inl e
                  | Inr symbol \<Rightarrow>
                      (case sf of
                         None \<Rightarrow> Inl (NameError ''safe_float'')
                       | Some f \<Rightarrow>
                           (case py_get pos ''size'' (PInt 0) of
                              Inl e \<Rightarrow> Inl e
                            | Inr v \<Rightarrow> Inr (symbol, f v))))))"

text \<open>\<open>order is None or (isinstance(order, dict) and not order)\<close>\<close>

definition close_failed :: "pyval \<Rightarrow> bool" where
  "close_failed order = (order = PNone \<or> order = PDict [])"

text \<open>
  The body of the loop over the active positions, inside its own \<open>try\<close>: the result
  says whether \<open>count\<close> is incremented.
\<close>

definition close_one ::
  "(pyval \<Rightarrow> pyfloat) option \<Rightarrow> 'c client \<Rightarrow> pyval \<Rightarrow> 'c \<Rightarrow> bool \<times> 'c" where
  "close_one sf client pos c =
     (case position_symbol_size sf pos of
        Inl e \<Rightarrow> (False, c)
      | Inr (symbol, size') \<Rightarrow>
          if \<not> fl_nonzero size' then (False, c)
          else
            (let is_long = fl_gt size' (Finite False 0);
                 side = (if is_long then ''sell'' else ''buy'');
                 amount = fl_abs size'
             in case py_get (config client) ''GRVT_SUB_ACCOUNT_ID'' PNone of
                  Inl e \<Rightarrow> (False, c)
                | Inr sub_account_id \<Rightarrow>
                    (case create_order client symbol ''market'' side amount
                            (PDict [(''sub_account_id'', sub_account_id),
                                    (''reduce_only'', PBool True)]) c of
                       (Inl e, c') \<Rightarrow> (False, c')
                     | (Inr order, c') \<Rightarrow> (\<not> close_failed order, c'))))"

fun close_loop ::
  "(pyval \<Rightarrow> pyfloat) option \<Rightarrow> 'c client \<Rightarrow> pyval list \<Rightarrow> 'c \<Rightarrow> int \<Rightarrow> int \<times> 'c" where
  "close_loop sf client [] c count = (count, c)"
| "close_loop sf client (pos # rest) c count =
     (case close_one sf client pos c of
        (ok, c') \<Rightarrow> close_loop sf client rest c' (if ok then count + 1 else count))"

text \<open>The function body, for a given binding of the global \<open>safe_float\<close>.\<close>

definition emergency_close_all_with ::
  "(pyval \<Rightarrow> pyfloat) option \<Rightarrow> 'c client \<Rightarrow> 'c \<Rightarrow> int \<times> 'c" where
  "emergency_close_all_with sf client c =
     (case fetch_positions client c of
        (Inl e, c') \<Rightarrow> (0, c')
      | (Inr positions, c') \<Rightarrow>
          (case active_positions sf positions of
             Inl e \<Rightarrow> (0, c')
           | Inr active \<Rightarrow>
               if active = [] then (0, c')
               else close_loop sf client active c' 0))"

text \<open>The function as the module defines it.\<close>

definition emergency_close_all :: "'c client \<Rightarrow> 'c \<Rightarrow> int \<times> 'c" where
  "emergency_close_all client c = emergency_close_all_with safe_float_global client c"

subsection \<open>A test client\<close>

text \<open>
  A client whose state is the log of the calls made to it. It holds one position,
  \<open>{'instrument': 'BTC_USDT_Perp', 'size': '0.5'}\<close>, no open order, and every call
  succeeds.
\<close>

definition logging_client :: "string list client" where
  "logging_client =
     \<lparr>fetch_open_orders = (\<lambda>log. (Inr [], log @ [''fetch_open_orders''])),
      cancel_order = (\<lambda>order_id log. (Inr (PBool True), log @ [''cancel_order''])),
      fetch_positions =
        (\<lambda>log. (Inr [PDict [(''instrument'', PStr ''BTC_USDT_Perp''), (''size'', PStr ''0.5'')]],
                log @ [''fetch_positions''])),
      create_order =
        (\<lambda>symbol order_type side amount params log.
           (Inr (PDict [(''order_id'', PStr ''0x01'')]), log @ [''create_order''])),
      config = PDict [(''GRVT_SUB_ACCOUNT_ID'', PStr ''0'')]\<rparr>"

text \<open>
  The outcome of each iteration of the loop of \<open>emergency_cancel_all\<close>, in order:
  \<open>True\<close> for an order that was cancelled.
\<close>

fun cancel_trace :: "'c client \<Rightarrow> pyval list \<Rightarrow> 'c \<Rightarrow> bool list" where
  "cancel_trace client [] c = []"
| "cancel_trace client (order # rest) c =
     (case cancel_one client order c of (ok, c') \<Rightarrow> ok # cancel_trace client rest c')"

section \<open>Evaluation rules\<close>

text \<open>
  Equations that let the simplifier run the definitions on numerals: the recursions
  of \<open>bitlen\<close>, \<open>floorlog\<close> and \<open>str_nat\<close> are unfolded one step at a time, under
  a condition that a numeral decides.
\<close>

lemma bitlen_numeral_simps:
  "bitlen 1 = 1"
  "bitlen (numeral (Num.Bit0 n)) = bitlen (numeral n) + 1"
  "bitlen (numeral (Num.Bit1 n)) = bitlen (numeral n) + 1"
proof -
  show "bitlen 1 = 1" by (subst compute_bitlen) simp
  have "numeral (Num.Bit0 n) div (2::int) = numeral n" by simp
  then show "bitlen (numeral (Num.Bit0 n)) = bitlen (numeral n) + 1"
    by (subst compute_bitlen) simp
  have "numeral (Num.Bit1 n) div (2::int) = numeral n" by simp
  then show "bitlen (numeral (Num.Bit1 n)) = bitlen (numeral n) + 1"
    by (subst compute_bitlen) simp
qed

lemma floorlog_10_step: "0 < a \<Longrightarrow> floorlog 10 a = Suc (floorlog 10 (a div 10))"
  by (subst compute_floorlog) simp

lemma floorlog_10_zero: "floorlog 10 0 = 0"
  by (subst compute_floorlog) simp

lemma str_nat_small: "n < 10 \<Longrightarrow> str_nat n = [digit_char n]"
  by (subst str_nat.simps) simp

lemma str_nat_big: "10 \<le> n \<Longrightarrow> str_nat n = str_nat (n div 10) @ [digit_char (n mod 10)]"
  by (subst str_nat.simps) simp

lemmas float_eval = round_binary64_def ulp_def ilog2_def pow2_def round_half_even_def Let_def
  bitlen_numeral_simps fl_round_def float_literal_def sval_def int_to_float_def

lemmas str_eval = str_nat_small str_nat_big digit_char_def floorlog_10_step floorlog_10_zero
  ilog10_def pow10_def reads_back_def strip_zeros_def repr_layout_def shortest_digits.simps

section \<open>Properties of the take-profit / stop-loss helpers\<close>

text \<open>
  C10. The mapping returned by \<open>create_tpsl_params\<close> does not depend on its \<open>side\<close>
  argument: two calls that differ only in \<open>side\<close> return the same result (the same
  mapping, or the same exception).
\<close>

theorem create_tpsl_params_side_independent:
  "create_tpsl_params side1 tp sl trigger_by close_position tick_size
     = create_tpsl_params side2 tp sl trigger_by close_position tick_size"
  by (simp add: create_tpsl_params_def)

lemma dict_keys_Nil [simp]: "dict_keys [] = {}"
  by (simp add: dict_keys_def)

lemma dict_keys_add_entry:
  "dict_keys (add_entry key trigger_type price trigger_by close_position params)
     = (if truthy price then insert key (dict_keys params) else dict_keys params)"
  by (cases price) (auto simp: add_entry_def dict_keys_def)

lemma round_if_truthy_None [simp]: "round_if_truthy None tick_size = Inr None"
  by (simp add: round_if_truthy_def)

lemma round_if_truthy_zero [simp]:
  "round_if_truthy (Some (Finite s 0)) tick_size = Inr (Some (Finite s 0))"
  by (simp add: round_if_truthy_def)

lemma add_entry_falsy [simp]:
  "add_entry key trigger_type None trigger_by close_position params = params"
  "add_entry key trigger_type (Some (Finite s 0)) trigger_by close_position params = params"
  by (simp_all add: add_entry_def)

lemma create_tpsl_params_no_take_profit:
  "case create_tpsl_params side None sl trigger_by close_position tick_size of
     Inl e \<Rightarrow> True | Inr d \<Rightarrow> ''take_profit'' \<notin> dict_keys d"
  by (auto simp: create_tpsl_params_def dict_keys_add_entry split: sum.splits)

lemma create_tpsl_params_no_stop_loss:
  "case create_tpsl_params side tp None trigger_by close_position tick_size of
     Inl e \<Rightarrow> True | Inr d \<Rightarrow> ''stop_loss'' \<notin> dict_keys d"
  by (auto simp: create_tpsl_params_def dict_keys_add_entry split: sum.splits)

lemma validate_zero_tp:
  "validate_tpsl_prices side L (Some (Finite s 0)) sl = validate_tpsl_prices side L None sl"
  by (simp add: validate_tpsl_prices_def)

lemma validate_zero_sl:
  "validate_tpsl_prices side L tp (Some (Finite s 0)) = validate_tpsl_prices side L tp None"
  by (cases tp) (simp_all add: validate_tpsl_prices_def Let_def split: option.splits)

lemma create_zero_tp:
  "create_tpsl_params side (Some (Finite s 0)) sl trigger_by close_position tick_size
     = create_tpsl_params side None sl trigger_by close_position tick_size"
  by (simp add: create_tpsl_params_def split: sum.splits)

lemma create_zero_sl:
  "create_tpsl_params side tp (Some (Finite s 0)) trigger_by close_position tick_size
     = create_tpsl_params side tp None trigger_by close_position tick_size"
  by (simp add: create_tpsl_params_def split: sum.splits)

text \<open>
  C8. A price equal to zero (\<open>0.0\<close> or \<open>-0.0\<close>, the falsy floats) is treated exactly
  like an absent price (\<open>None\<close>): \<open>validate_tpsl_prices\<close> skips its check, and
  succeeds with \<open>(True, "")\<close> when both prices are absent; \<open>create_tpsl_params\<close>
  leaves its entry out of the mapping it returns, and returns the empty mapping when
  both are absent.
\<close>

theorem zero_price_is_absent:
  "validate_tpsl_prices side L (Some (Finite s 0)) sl = validate_tpsl_prices side L None sl
   \<and> validate_tpsl_prices side L tp (Some (Finite s 0)) = validate_tpsl_prices side L tp None
   \<and> validate_tpsl_prices side L None None = (True, [])
   \<and> create_tpsl_params side (Some (Finite s 0)) sl trigger_by close_position tick_size
       = create_tpsl_params side None sl trigger_by close_position tick_size
   \<and> create_tpsl_params side tp (Some (Finite s 0)) trigger_by close_position tick_size
       = create_tpsl_params side tp None trigger_by close_position tick_size
   \<and> create_tpsl_params side None None trigger_by close_position tick_size = Inr []
   \<and> (case create_tpsl_params side None sl trigger_by close_position tick_size of
         Inl e \<Rightarrow> True | Inr d \<Rightarrow> ''take_profit'' \<notin> dict_keys d)
   \<and> (case create_tpsl_params side tp None trigger_by close_position tick_size of
         Inl e \<Rightarrow> True | Inr d \<Rightarrow> ''stop_loss'' \<notin> dict_keys d)"
proof -
  have both_absent: "validate_tpsl_prices side L None None = (True, [])"
    by (simp add: validate_tpsl_prices_def)
  have empty: "create_tpsl_params side None None trigger_by close_position tick_size = Inr []"
    by (simp add: create_tpsl_params_def)
  show ?thesis
    by (intro conjI validate_zero_tp validate_zero_sl create_zero_tp create_zero_sl
        both_absent empty create_tpsl_params_no_take_profit create_tpsl_params_no_stop_loss)
qed

lemma fl_lt_imp_le: "fl_lt x y \<Longrightarrow> fl_le x y"
  by (induction x y rule: fl_lt.induct) auto

lemma fl_lt_not_le: "fl_lt x y \<Longrightarrow> \<not> fl_le y x"
  by (induction x y rule: fl_lt.induct) auto

lemma positive_bound_truthy:
  "fl_lt (Finite False 0) L \<Longrightarrow> fl_lt L x \<Longrightarrow> float_truthy x"
  by (cases L; cases x) (auto simp: sval_def split: if_splits)

lemma validate_sell_ok:
  assumes "fl_gt tp L" "fl_lt sl L"
  shows "validate_tpsl_prices ''sell'' L (Some tp) (Some sl) = (True, [])"
  using assms fl_lt_not_le[of L tp] fl_lt_not_le[of sl L]
  by (simp add: validate_tpsl_prices_def validate_tp_def validate_sl_def fl_gt_def fl_ge_def
      py_lower_def lower_char_def Let_def)

lemma validate_buy_ok:
  assumes "fl_lt tp L" "fl_gt sl L"
  shows "validate_tpsl_prices ''buy'' L (Some tp) (Some sl) = (True, [])"
  using assms fl_lt_not_le[of tp L] fl_lt_not_le[of L sl]
  by (simp add: validate_tpsl_prices_def validate_tp_def validate_sl_def fl_gt_def fl_ge_def
      py_lower_def lower_char_def Let_def)

lemma validate_sell_tp_low:
  assumes "float_truthy tp" "fl_lt tp L"
  shows "validate_tpsl_prices ''sell'' L (Some tp) sl
           = (False, ''TP for LONG must be > last price ($'' @ format_2f L @ '')'')"
  using assms fl_lt_imp_le[of tp L]
  by (simp add: validate_tpsl_prices_def validate_tp_def py_lower_def lower_char_def Let_def)

lemma validate_buy_tp_high:
  assumes "float_truthy tp" "fl_gt tp L"
  shows "validate_tpsl_prices ''buy'' L (Some tp) sl
           = (False, ''TP for SHORT must be < last price ($'' @ format_2f L @ '')'')"
  using assms fl_lt_imp_le[of L tp]
  by (simp add: validate_tpsl_prices_def validate_tp_def fl_gt_def fl_ge_def py_lower_def
      lower_char_def Let_def)

text \<open>
  C1 (amended). For every last price \<open>L > 0\<close>:
  \<open>validate_tpsl_prices('sell', L, tp, sl)\<close> returns \<open>(True, "")\<close> whenever
  \<open>tp > L\<close> and \<open>sl < L\<close>, and returns \<open>(False, m)\<close>, with \<open>m\<close> the message
  \<open>TP for LONG must be > last price ($L)\<close> carrying \<open>L\<close> formatted to two decimals,
  whenever the take-profit price supplied is not zero and \<open>tp < L\<close>. For
  \<open>side = 'buy'\<close> the same holds with the inequalities reversed (there \<open>tp > L > 0\<close>
  already makes \<open>tp\<close> non-zero).
\<close>

theorem validate_tpsl_prices_rules:
  assumes "fl_gt L (Finite False 0)"
  shows "(fl_gt tp L \<and> fl_lt sl L \<longrightarrow>
            validate_tpsl_prices ''sell'' L (Some tp) (Some sl) = (True, []))
       \<and> (float_truthy tp \<and> fl_lt tp L \<longrightarrow>
            validate_tpsl_prices ''sell'' L (Some tp) sl_opt
              = (False, ''TP for LONG must be > last price ($'' @ format_2f L @ '')''))
       \<and> (fl_lt tp L \<and> fl_gt sl L \<longrightarrow>
            validate_tpsl_prices ''buy'' L (Some tp) (Some sl) = (True, []))
       \<and> (fl_gt tp L \<longrightarrow>
            validate_tpsl_prices ''buy'' L (Some tp) sl_opt
              = (False, ''TP for SHORT must be < last price ($'' @ format_2f L @ '')''))"
proof (intro conjI impI)
  assume "fl_gt tp L \<and> fl_lt sl L"
  then show "validate_tpsl_prices ''sell'' L (Some tp) (Some sl) = (True, [])"
    by (simp add: validate_sell_ok)
next
  assume "float_truthy tp \<and> fl_lt tp L"
  then show "validate_tpsl_prices ''sell'' L (Some tp) sl_opt
      = (False, ''TP for LONG must be > last price ($'' @ format_2f L @ '')'')"
    by (simp add: validate_sell_tp_low)
next
  assume "fl_lt tp L \<and> fl_gt sl L"
  then show "validate_tpsl_prices ''buy'' L (Some tp) (Some sl) = (True, [])"
    by (simp add: validate_buy_ok)
next
  assume gt: "fl_gt tp L"
  with assms have "float_truthy tp"
    using positive_bound_truthy[of L tp] by (simp add: fl_gt_def)
  with gt show "validate_tpsl_prices ''buy'' L (Some tp) sl_opt
      = (False, ''TP for SHORT must be < last price ($'' @ format_2f L @ '')'')"
    by (simp add: validate_buy_tp_high)
qed

text \<open>The four rules at \<open>L = 100.0\<close> with the prices \<open>110.0\<close> and \<open>90.0\<close>.\<close>

theorem validate_tpsl_prices_rules_witness:
  "validate_tpsl_prices ''sell'' (Finite False 100) (Some (Finite False 110)) (Some (Finite False 90))
     = (True, [])
   \<and> validate_tpsl_prices ''sell'' (Finite False 100) (Some (Finite False 90)) None
     = (False, ''TP for LONG must be > last price ($100.00)'')
   \<and> validate_tpsl_prices ''buy'' (Finite False 100) (Some (Finite False 90)) (Some (Finite False 110))
     = (True, [])
   \<and> validate_tpsl_prices ''buy'' (Finite False 100) (Some (Finite False 110)) None
     = (False, ''TP for SHORT must be < last price ($100.00)'')"
proof -
  have fmt: "format_2f (Finite False 100) = ''100.00''"
    by (simp add: str_eval float_eval)
  have pos: "fl_gt (Finite False 100) (Finite False 0)"
    by (simp add: fl_gt_def sval_def)
  show ?thesis
    using validate_tpsl_prices_rules[OF pos, of "Finite False 110" "Finite False 90" None]
      validate_tpsl_prices_rules[OF pos, of "Finite False 90" "Finite False 110" None]
    by (simp add: fmt fl_gt_def sval_def del: format_2f.simps)
qed

text \<open>
  C1 as stated fails at a take-profit price of zero: \<open>0.0 < 100.0\<close>, yet
  \<open>validate_tpsl_prices('sell', 100.0, 0.0, None)\<close> returns \<open>(True, "")\<close>, because a
  zero price is falsy and the function returns before any comparison.
\<close>

theorem validate_zero_take_profit_counterexample:
  "fl_gt (Finite False 100) (Finite False 0)
   \<and> fl_lt (Finite False 0) (Finite False 100)
   \<and> validate_tpsl_prices ''sell'' (Finite False 100) (Some (Finite False 0)) None = (True, [])"
  by (simp add: fl_gt_def sval_def validate_tpsl_prices_def)

lemma round_half_even_nonneg: "0 \<le> x \<Longrightarrow> 0 \<le> round_half_even x"
  by (simp add: round_half_even_def Let_def)

lemma round_half_even_zero [simp]: "round_half_even 0 = 0"
  by (simp add: round_half_even_def)

lemma pow2_pos [simp]: "0 < pow2 e"
  by (simp add: pow2_def)

lemma round_binary64_nonneg:
  assumes "round_binary64 x = Some r" "0 \<le> x"
  shows "0 \<le> r"
proof (cases "x = 0")
  case True
  with assms show ?thesis by (simp add: round_binary64_def)
next
  case False
  have q: "0 < ulp x" by (simp add: ulp_def)
  then have "0 \<le> x / ulp x" using assms(2) by simp
  then have "0 \<le> round_half_even (x / ulp x)" by (rule round_half_even_nonneg)
  moreover have "r = of_int (round_half_even (x / ulp x)) * ulp x"
    using assms(1) False by (simp add: round_binary64_def Let_def split: if_splits)
  ultimately show ?thesis using q by (simp add: less_imp_le)
qed

lemma round_binary64_zero [simp]: "round_binary64 0 = Some 0"
  by (simp add: round_binary64_def)

lemma round_to_tick_size_zero_tick:
  "round_to_tick_size price (Finite s 0) = Inl ZeroDivisionError"
  by (simp add: round_to_tick_size_def)

text \<open>The sign of the tick size cancels: first in the quotient, then in the product.\<close>

lemma round_to_tick_size_finite:
  assumes "m \<noteq> 0"
  shows "round_to_tick_size (Finite sp mp) (Finite st m) =
     (case round_binary64 (mp / m) of
        None \<Rightarrow> Inl OverflowError
      | Some r \<Rightarrow>
          (let n = (if sp \<noteq> st then - round_half_even r else round_half_even r) in
           case round_binary64 \<bar>of_int n\<bar> of
             None \<Rightarrow> Inl OverflowError
           | Some nf \<Rightarrow> Inr (fl_round ((n < 0) \<noteq> st) (nf * m))))"
  using assms
  by (simp add: round_to_tick_size_def fl_round_def int_to_float_def Let_def
      split: option.splits)

lemma same_float_sign:
  "(s \<noteq> s' \<longrightarrow> x = 0) \<Longrightarrow> same_float (fl_round s x) (fl_round s' x)"
  by (cases "s = s'")
     (auto simp: same_float_def fl_eq_def fl_round_def sval_def split: option.splits)

lemma round_to_tick_size_negative_tick:
  assumes "is_float price" "is_float (Finite True m)"
  shows "same_outcome (round_to_tick_size price (Finite True m))
                      (round_to_tick_size price (Finite False m))"
proof (cases "m = 0")
  case True
  then show ?thesis by (simp add: round_to_tick_size_zero_tick)
next
  case m: False
  with assms(2) have mpos: "0 < m" by simp
  show ?thesis
  proof (cases price)
    case (Finite sp mp)
    with assms(1) have mp: "0 \<le> mp" by simp
    show ?thesis
    proof (cases "round_binary64 (mp / m)")
      case None
      with m Finite show ?thesis by (simp add: round_to_tick_size_finite)
    next
      case (Some r)
      have "0 \<le> mp / m" using mp mpos by simp
      with Some have "0 \<le> r" by (rule round_binary64_nonneg)
      then have k: "0 \<le> round_half_even r" by (rule round_half_even_nonneg)
      define k where "k = round_half_even r"
      have abs_eq: "\<bar>real_of_int (- k)\<bar> = \<bar>real_of_int k\<bar>" by simp
      show ?thesis
      proof (cases "round_binary64 \<bar>of_int k\<bar>")
        case None
        with m Finite Some show ?thesis
          by (simp add: round_to_tick_size_finite Let_def k_def[symmetric])
      next
        case nf: (Some nf)
        have zero: "k = 0 \<Longrightarrow> nf * m = 0"
          using nf by simp
        have "same_float (fl_round ((- k < 0) \<noteq> True) (nf * m))
                         (fl_round ((k < 0) \<noteq> False) (nf * m))"
          using k zero by (intro same_float_sign) (auto simp: k_def)
        moreover have "same_float (fl_round ((k < 0) \<noteq> True) (nf * m))
                         (fl_round ((- k < 0) \<noteq> False) (nf * m))"
          using k zero by (intro same_float_sign) (auto simp: k_def)
        ultimately show ?thesis
          using m Finite Some nf
          by (cases sp) (simp_all add: round_to_tick_size_finite Let_def k_def[symmetric])
      qed
    qed
  next
    case (Infinity s)
    with m show ?thesis by (simp add: round_to_tick_size_def)
  next
    case NaN
    with m show ?thesis by (simp add: round_to_tick_size_def)
  qed
qed

text \<open>
  C7 (amended). With a tick size of zero (\<open>0.0\<close> or \<open>-0.0\<close>)
  \<open>round_to_tick_size\<close> fails fast for every price, with \<open>ZeroDivisionError\<close>.
  A negative tick size is not rejected: for every float price the call has the
  outcome of the call with the tick size of the same magnitude, the same exception
  or an equal rounded value.
\<close>

theorem round_to_tick_size_bad_tick:
  "round_to_tick_size price (Finite s 0) = Inl ZeroDivisionError
   \<and> (is_float price \<and> is_float (Finite True m) \<longrightarrow>
        same_outcome (round_to_tick_size price (Finite True m))
                     (round_to_tick_size price (Finite False m)))"
  using round_to_tick_size_zero_tick round_to_tick_size_negative_tick by blast

text \<open>The price \<open>100.0\<close> with the tick sizes \<open>-0.0\<close> and \<open>-0.5\<close>.\<close>

theorem round_to_tick_size_bad_tick_witness:
  "round_to_tick_size (Finite False 100) (Finite True 0) = Inl ZeroDivisionError
   \<and> is_float (Finite False 100) \<and> is_float (Finite True (1 / 2))
   \<and> same_outcome (round_to_tick_size (Finite False 100) (Finite True (1 / 2)))
                   (round_to_tick_size (Finite False 100) (Finite False (1 / 2)))"
proof -
  have "is_float (Finite False 100)" "is_float (Finite True (1 / 2))"
    by (simp_all add: float_eval)
  then show ?thesis
    using round_to_tick_size_bad_tick[of "Finite False 100" True "1 / 2"] by simp
qed

text \<open>
  C7 as stated fails for a negative tick size:
  \<open>round_to_tick_size(100.0, -0.5)\<close> raises nothing and returns \<open>100.0\<close>.
\<close>

theorem round_to_tick_size_negative_tick_counterexample:
  "fl_lt (Finite True (1 / 2)) (Finite False 0)
   \<and> round_to_tick_size (Finite False 100) (Finite True (1 / 2)) = Inr (Finite False 100)"
  by (simp add: round_to_tick_size_def float_eval)

lemma round_if_truthy_Some:
  "float_truthy p \<Longrightarrow> round_to_tick_size p tick_size = Inr r
     \<Longrightarrow> round_if_truthy (Some p) tick_size = Inr (Some r)"
  by (simp add: round_if_truthy_def)

text \<open>
  C2 (amended). For every side, \<open>trigger_by\<close>, \<open>close_position\<close> and tick size:
  when both prices are supplied and non-zero, and rounding each of them to the tick
  size succeeds with a non-zero result, \<open>create_tpsl_params\<close> returns a mapping
  whose key set is exactly \<open>{take_profit, stop_loss}\<close>; with neither price supplied
  it returns the empty mapping.
\<close>

theorem create_tpsl_params_key_set:
  assumes "float_truthy tp" and "float_truthy sl"
    and "round_to_tick_size tp tick_size = Inr tp'"
    and "round_to_tick_size sl tick_size = Inr sl'"
    and "float_truthy tp'" and "float_truthy sl'"
  shows "(\<exists>d. create_tpsl_params side (Some tp) (Some sl) trigger_by close_position tick_size
                = Inr d
              \<and> dict_keys d = {''take_profit'', ''stop_loss''})
       \<and> create_tpsl_params side None None trigger_by close_position tick_size = Inr []"
proof -
  have "create_tpsl_params side (Some tp) (Some sl) trigger_by close_position tick_size
      = Inr (add_entry ''stop_loss'' ''STOP_LOSS'' (Some sl') trigger_by close_position
              (add_entry ''take_profit'' ''TAKE_PROFIT'' (Some tp') trigger_by close_position []))"
    using assms by (simp add: create_tpsl_params_def round_if_truthy_Some)
  moreover have "dict_keys (add_entry ''stop_loss'' ''STOP_LOSS'' (Some sl') trigger_by
        close_position
        (add_entry ''take_profit'' ''TAKE_PROFIT'' (Some tp') trigger_by close_position []))
      = {''take_profit'', ''stop_loss''}"
    using assms(5,6) by (auto simp: dict_keys_add_entry)
  moreover have "create_tpsl_params side None None trigger_by close_position tick_size = Inr []"
    by (simp add: create_tpsl_params_def)
  ultimately show ?thesis by blast
qed

lemma literal_86486_17:
  "float_literal (8648617 / 100) = Finite False (5943284347300741 / 68719476736)"
  by (simp add: float_eval)

lemma literal_half: "float_literal (1 / 2) = Finite False (1 / 2)"
  by (simp add: float_eval)

lemma literal_tenth:
  "float_literal (1 / 10) = Finite False (3602879701896397 / 36028797018963968)"
  by (simp add: float_eval)

lemma round_86486_17:
  "round_to_tick_size (float_literal (8648617 / 100)) (float_literal (1 / 2))
     = Inr (Finite False 86486)"
  by (simp add: literal_86486_17 literal_half round_to_tick_size_def float_eval)

lemma round_85000_3:
  "round_to_tick_size (float_literal (850003 / 10)) (float_literal (1 / 2))
     = Inr (Finite False (170001 / 2))"
  by (simp add: literal_half round_to_tick_size_def float_eval)

lemma round_tenth:
  "round_to_tick_size (float_literal (1 / 10)) (float_literal (1 / 2)) = Inr (Finite False 0)"
  by (simp add: literal_tenth literal_half round_to_tick_size_def float_eval)

text \<open>The prices \<open>86486.17\<close> and \<open>85000.3\<close> with the tick size \<open>0.5\<close>.\<close>

theorem create_tpsl_params_key_set_witness:
  "(\<exists>d. create_tpsl_params ''sell'' (Some (float_literal (8648617 / 100)))
           (Some (float_literal (850003 / 10))) ''LAST_PRICE'' True (float_literal (1 / 2)) = Inr d
        \<and> dict_keys d = {''take_profit'', ''stop_loss''})
   \<and> create_tpsl_params ''sell'' None None ''LAST_PRICE'' True (float_literal (1 / 2)) = Inr []"
proof -
  have "float_truthy (float_literal (8648617 / 100))"
    by (simp add: literal_86486_17)
  moreover have "float_truthy (float_literal (850003 / 10))"
    by (simp add: float_eval)
  ultimately show ?thesis
    using create_tpsl_params_key_set[OF _ _ round_86486_17 round_85000_3] by simp
qed

text \<open>
  C2 as stated fails when a price rounds to zero: with both prices \<open>0.1\<close> (supplied,
  non-zero) and the tick size \<open>0.5\<close>, \<open>round(0.1 / 0.5) * 0.5\<close> is \<open>0.0\<close>, which
  is falsy, so neither entry is added and the mapping returned is empty.
\<close>

theorem create_tpsl_params_rounds_to_zero_counterexample:
  "float_truthy (float_literal (1 / 10))
   \<and> create_tpsl_params ''sell'' (Some (float_literal (1 / 10))) (Some (float_literal (1 / 10)))
        ''LAST_PRICE'' True (float_literal (1 / 2)) = Inr []"
proof -
  have "float_truthy (float_literal (1 / 10))"
    by (simp add: literal_tenth)
  then show ?thesis
    by (simp add: create_tpsl_params_def round_if_truthy_def round_tenth add_entry_def)
qed

lemma str_86486: "py_str_float (Finite False 86486) = ''86486.0''"
  by (simp add: str_eval float_eval)

text \<open>
  C3. \<open>create_tpsl_params('sell', take_profit_price=86486.17, tick_size=0.5)\<close>, the
  other parameters at the defaults of the signature (\<open>stop_loss_price=None\<close>,
  \<open>trigger_by='LAST_PRICE'\<close>, \<open>close_position=True\<close>), returns exactly the mapping
  with the single entry \<open>take_profit\<close>, whose trigger price is the string
  \<open>86486.0\<close>.
\<close>

theorem create_tpsl_params_scenario:
  "create_tpsl_params ''sell'' (Some (float_literal (8648617 / 100))) None ''LAST_PRICE'' True
     (float_literal (1 / 2))
   = Inr [(''take_profit'',
       PDict [(''trigger'',
         PDict [(''trigger_type'', PStr ''TAKE_PROFIT''),
                (''tpsl'',
                   PDict [(''trigger_price'', PStr ''86486.0''),
                          (''trigger_by'', PStr ''LAST_PRICE''),
                          (''close_position'', PBool True)])])])]"
proof -
  have "float_truthy (float_literal (8648617 / 100))"
    by (simp add: literal_86486_17)
  then have "round_if_truthy (Some (float_literal (8648617 / 100))) (float_literal (1 / 2))
      = Inr (Some (Finite False 86486))"
    by (simp add: round_if_truthy_Some round_86486_17)
  then show ?thesis
    by (simp add: create_tpsl_params_def add_entry_def trigger_entry_def str_86486
        del: py_str_float.simps)
qed

section \<open>Properties of the rate limiter\<close>

lemma older_not_in_window:
  "fl_gt_int (total_seconds (now - r)) (time_window self) \<Longrightarrow> \<not> in_window self now r"
  by (cases "total_seconds (now - r)") (auto simp: in_window_def)

text \<open>
  C5. \<open>can_make_request()\<close> replaces the stored list by the list of the timestamps
  that pass the window test \<open>(now - req_time).total_seconds() < time_window\<close>, in
  their order: every timestamp older than \<open>time_window\<close> is removed, and the
  timestamps left are all in the window. It then returns \<open>True\<close> exactly when the
  length of the pruned list is below \<open>max_requests\<close>; the two settings are unchanged.
  With an empty list and a positive \<open>max_requests\<close> it returns \<open>True\<close>.
\<close>

theorem can_make_request_prunes:
  "requests (snd (can_make_request self now)) = filter (in_window self now) (requests self)
   \<and> (\<forall>r \<in> set (requests (snd (can_make_request self now))). in_window self now r)
   \<and> (\<forall>r \<in> set (requests self).
         fl_gt_int (total_seconds (now - r)) (time_window self)
           \<longrightarrow> r \<notin> set (requests (snd (can_make_request self now))))
   \<and> max_requests (snd (can_make_request self now)) = max_requests self
   \<and> time_window (snd (can_make_request self now)) = time_window self
   \<and> (fst (can_make_request self now)
        \<longleftrightarrow> int (length (requests (snd (can_make_request self now)))) < max_requests self)
   \<and> (requests self = [] \<and> 0 < max_requests self \<longrightarrow> fst (can_make_request self now))"
  using older_not_in_window[of now _ self]
  by (auto simp: can_make_request_def Let_def)

lemma total_seconds_eval:
  "total_seconds 12000000 = Finite False 12"
  "total_seconds 9000000 = Finite False 9"
  "total_seconds 5000000 = Finite False 5"
  "total_seconds 2000000 = Finite False 2"
  "total_seconds 1000000 = Finite False 1"
  "total_seconds 0 = Finite False 0"
  by (simp_all add: total_seconds_def float_eval)

text \<open>
  A limiter of two requests per ten seconds with requests at 0 s and 3 s: at 5 s both
  are kept and the answer is \<open>False\<close>; at 12 s the first one is older than the
  window, it is removed and the answer is \<open>True\<close>.
\<close>

theorem can_make_request_prunes_witness:
  "can_make_request \<lparr>max_requests = 2, time_window = 10, requests = [0, 3000000]\<rparr> 5000000
     = (False, \<lparr>max_requests = 2, time_window = 10, requests = [0, 3000000]\<rparr>)
   \<and> can_make_request \<lparr>max_requests = 2, time_window = 10, requests = [0, 3000000]\<rparr> 12000000
     = (True, \<lparr>max_requests = 2, time_window = 10, requests = [3000000]\<rparr>)
   \<and> fl_gt_int (total_seconds (12000000 - 0)) 10
   \<and> fst (can_make_request (RateLimiter 2 10) 0)"
proof -
  let ?rl = "\<lparr>max_requests = 2, time_window = 10, requests = [0, 3000000]\<rparr>"
  have a: "can_make_request ?rl 5000000 = (False, ?rl)"
    by (simp add: can_make_request_def in_window_def total_seconds_eval sval_def)
  have b: "can_make_request ?rl 12000000
      = (True, \<lparr>max_requests = 2, time_window = 10, requests = [3000000]\<rparr>)"
    by (simp add: can_make_request_def in_window_def total_seconds_eval sval_def)
  have c: "fl_gt_int (total_seconds (12000000 - 0)) 10"
    by (simp add: total_seconds_eval sval_def)
  have d: "fst (can_make_request (RateLimiter 2 10) 0)"
    using can_make_request_prunes[of "RateLimiter 2 10" 0] by (simp add: RateLimiter_def)
  show ?thesis using a b c d by simp
qed

lemma fold_min_least:
  "fold min zs z \<in> set (z # zs) \<and> (\<forall>x \<in> set (z # zs). fold min zs z \<le> x)"
  for zs :: "int list"
proof (induction zs arbitrary: z)
  case Nil
  then show ?case by simp
next
  case (Cons a zs)
  from Cons.IH[of "min a z"] show ?case
    by (auto simp: min_def split: if_splits)
qed

lemma py_min_member:
  assumes "py_min xs = Inr m"
  shows "m \<in> set xs \<and> (\<forall>x \<in> set xs. m \<le> x)"
proof (cases xs)
  case Nil
  with assms show ?thesis by simp
next
  case (Cons y ys)
  with assms have "m = fold min ys y" by simp
  with Cons fold_min_least[of ys y] show ?thesis by simp
qed

lemma wait_if_needed_unfold:
  "wait_if_needed self now1 now2 monotonic =
     (if fst (can_make_request self now1) then Inr (None, snd (can_make_request self now1))
      else
        (case py_min (requests (snd (can_make_request self now1))) of
           Inl e \<Rightarrow> Inl e
         | Inr oldest_request \<Rightarrow>
             (case int_to_float (time_window (snd (can_make_request self now1))) of
                Inl e \<Rightarrow> Inl e
              | Inr w \<Rightarrow>
                  (let wait_time = fl_sub w (total_seconds (now2 - oldest_request))
                   in if fl_gt_int wait_time 0
                      then (case time_sleep monotonic
                                   (fl_add wait_time (float_literal (1 / 10))) of
                              Inl e \<Rightarrow> Inl e
                            | Inr u \<Rightarrow>
                                Inr (Some (fl_add wait_time (float_literal (1 / 10))),
                                     snd (can_make_request self now1)))
                      else Inr (None, snd (can_make_request self now1))))))"
  by (cases "can_make_request self now1")
     (simp add: wait_if_needed_def Let_def split: sum.splits)

lemma py_min_nonempty: "xs \<noteq> [] \<Longrightarrow> \<exists>m. py_min xs = Inr m"
  by (cases xs) auto

text \<open>
  C6 (amended). For a \<open>RateLimiter\<close> with a positive \<open>max_requests\<close> and a positive
  \<open>time_window\<close> that converts to a float \<open>w\<close>: when \<open>can_make_request()\<close> is true,
  \<open>wait_if_needed()\<close> returns without sleeping; when it is false, there is an oldest
  stored timestamp, \<open>wait_time\<close> is \<open>w\<close> minus the seconds from it to the second
  clock reading, and the function does not sleep when \<open>wait_time\<close> is not positive.
  When \<open>wait_time\<close> is positive it calls \<open>time.sleep(wait_time + 0.1)\<close>: if that call
  returns, the function has slept for \<open>wait_time + 0.1\<close> seconds and returns, and if
  the call raises (\<open>OverflowError\<close> from \<open>2^63\<close> nanoseconds on, \<open>OSError\<close> for a
  deadline beyond the range of the monotonic clock), the exception leaves
  \<open>wait_if_needed\<close>. Where the function returns, the stored list is the pruned one.
\<close>

theorem wait_if_needed_behaviour:
  assumes "0 < max_requests self" and "0 < time_window self"
    and "int_to_float (time_window self) = Inr w"
  shows "(fst (can_make_request self now1) \<longrightarrow>
            wait_if_needed self now1 now2 monotonic
              = Inr (None, snd (can_make_request self now1)))
       \<and> (\<not> fst (can_make_request self now1) \<longrightarrow>
            (\<exists>oldest wait_time.
               oldest \<in> set (requests (snd (can_make_request self now1)))
               \<and> (\<forall>r \<in> set (requests (snd (can_make_request self now1))). oldest \<le> r)
               \<and> wait_time = fl_sub w (total_seconds (now2 - oldest))
               \<and> wait_if_needed self now1 now2 monotonic =
                    (if fl_gt_int wait_time 0
                     then (case time_sleep monotonic
                                  (fl_add wait_time (float_literal (1 / 10))) of
                             Inl e \<Rightarrow> Inl e
                           | Inr u \<Rightarrow>
                               Inr (Some (fl_add wait_time (float_literal (1 / 10))),
                                    snd (can_make_request self now1)))
                     else Inr (None, snd (can_make_request self now1)))))"
proof (intro conjI impI)
  assume "fst (can_make_request self now1)"
  then show "wait_if_needed self now1 now2 monotonic
      = Inr (None, snd (can_make_request self now1))"
    by (simp add: wait_if_needed_unfold)
next
  let ?self' = "snd (can_make_request self now1)"
  assume no: "\<not> fst (can_make_request self now1)"
  then have "max_requests self \<le> int (length (requests ?self'))"
    by (simp add: can_make_request_def Let_def)
  with assms(1) have "requests ?self' \<noteq> []" by auto
  then obtain oldest where m: "py_min (requests ?self') = Inr oldest"
    using py_min_nonempty by blast
  have tw: "time_window ?self' = time_window self"
    by (simp add: can_make_request_def Let_def)
  have "wait_if_needed self now1 now2 monotonic =
      (if fl_gt_int (fl_sub w (total_seconds (now2 - oldest))) 0
       then (case time_sleep monotonic
                    (fl_add (fl_sub w (total_seconds (now2 - oldest)))
                       (float_literal (1 / 10))) of
               Inl e \<Rightarrow> Inl e
             | Inr u \<Rightarrow>
                 Inr (Some (fl_add (fl_sub w (total_seconds (now2 - oldest)))
                              (float_literal (1 / 10))), ?self'))
       else Inr (None, ?self'))"
    using no m assms(3) tw by (simp add: wait_if_needed_unfold Let_def)
  with py_min_member[OF m] show "\<exists>oldest wait_time.
       oldest \<in> set (requests ?self')
       \<and> (\<forall>r \<in> set (requests ?self'). oldest \<le> r)
       \<and> wait_time = fl_sub w (total_seconds (now2 - oldest))
       \<and> wait_if_needed self now1 now2 monotonic =
            (if fl_gt_int wait_time 0
             then (case time_sleep monotonic
                          (fl_add wait_time (float_literal (1 / 10))) of
                     Inl e \<Rightarrow> Inl e
                   | Inr u \<Rightarrow>
                       Inr (Some (fl_add wait_time (float_literal (1 / 10))), ?self'))
             else Inr (None, ?self'))"
    by blast
qed

lemma int_to_float_10: "int_to_float 10 = Inr (Finite False 10)"
  by (simp add: float_eval)

lemma sleep_5_1:
  "fl_add (Finite False 5) (float_literal (1 / 10))
     = Finite False (2871044762448691 / 562949953421312)"
  by (simp add: float_eval)

lemma time_sleep_5_1:
  "time_sleep 1000000000000 (Finite False (2871044762448691 / 562949953421312)) = Inr ()"
  by (simp add: time_sleep_def sleep_nanoseconds_def float_eval)

text \<open>
  A limiter of two requests per ten seconds: with no request stored it does not
  sleep; with requests at 0 s and 3 s and the clock at 5 s, the waiting time is
  \<open>5.0\<close> and it sleeps for \<open>5.1\<close> seconds (the monotonic clock reads 1000 s).
\<close>

theorem wait_if_needed_behaviour_witness:
  "wait_if_needed (RateLimiter 2 10) 0 0 1000000000000 = Inr (None, RateLimiter 2 10)
   \<and> wait_if_needed \<lparr>max_requests = 2, time_window = 10, requests = [0, 3000000]\<rparr>
         5000000 5000000 1000000000000
       = Inr (Some (Finite False (2871044762448691 / 562949953421312)),
              \<lparr>max_requests = 2, time_window = 10, requests = [0, 3000000]\<rparr>)"
proof -
  let ?rl = "\<lparr>max_requests = 2, time_window = 10, requests = [0, 3000000]\<rparr>"
  let ?m = "1000000000000 :: int"
  have under: "can_make_request (RateLimiter 2 10) 0 = (True, RateLimiter 2 10)"
    by (simp add: can_make_request_def RateLimiter_def)
  have over: "can_make_request ?rl 5000000 = (False, ?rl)"
    by (simp add: can_make_request_def in_window_def total_seconds_eval sval_def)
  have wt: "fl_sub (Finite False 10) (total_seconds (5000000 - 0)) = Finite False 5"
    by (simp add: fl_sub_def total_seconds_eval float_eval)
  have a: "wait_if_needed (RateLimiter 2 10) 0 0 ?m = Inr (None, RateLimiter 2 10)"
    using wait_if_needed_behaviour[of "RateLimiter 2 10" "Finite False 10" 0 0 ?m] under
    by (simp add: RateLimiter_def int_to_float_10)
  have h: "0 < max_requests ?rl" "0 < time_window ?rl"
    "int_to_float (time_window ?rl) = Inr (Finite False 10)"
    by (simp_all add: int_to_float_10)
  have nf: "\<not> fst (can_make_request ?rl 5000000)" by (simp add: over)
  from wait_if_needed_behaviour[OF h, of 5000000 5000000 ?m, THEN conjunct2, THEN mp, OF nf]
  obtain oldest wait_time
    where o: "oldest \<in> set (requests (snd (can_make_request ?rl 5000000)))"
      "\<forall>r \<in> set (requests (snd (can_make_request ?rl 5000000))). oldest \<le> r"
    and wd: "wait_time = fl_sub (Finite False 10) (total_seconds (5000000 - oldest))"
    and w: "wait_if_needed ?rl 5000000 5000000 ?m =
       (if fl_gt_int wait_time 0
        then (case time_sleep ?m (fl_add wait_time (float_literal (1 / 10))) of
                Inl e \<Rightarrow> Inl e
              | Inr u \<Rightarrow>
                  Inr (Some (fl_add wait_time (float_literal (1 / 10))),
                       snd (can_make_request ?rl 5000000)))
        else Inr (None, snd (can_make_request ?rl 5000000)))"
    by blast
  from o have "oldest = 0" by (auto simp: over)
  with wd wt have "wait_time = Finite False 5" by simp
  with w have b: "wait_if_needed ?rl 5000000 5000000 ?m
      = Inr (Some (Finite False (2871044762448691 / 562949953421312)), ?rl)"
    by (simp add: over sleep_5_1 time_sleep_5_1 sval_def)
  from a b show ?thesis by simp
qed

lemma wait_time_window_1e10:
  "int_to_float 10000000000 = Inr (Finite False 10000000000)
   \<and> fl_sub (Finite False 10000000000) (total_seconds (1000000 - 0)) = Finite False 9999999999
   \<and> fl_add (Finite False 9999999999) (float_literal (1 / 10))
       = Finite False (5242879999528141 / 524288)"
  by (simp add: fl_sub_def total_seconds_eval float_eval)

lemma wait_time_window_2p63:
  "int_to_float 9223372036 = Inr (Finite False 9223372036)
   \<and> fl_sub (Finite False 9223372036) (total_seconds (1000000 - 0)) = Finite False 9223372035
   \<and> fl_add (Finite False 9223372035) (float_literal (1 / 10))
       = Finite False (4835703277538509 / 524288)"
  by (simp add: fl_sub_def total_seconds_eval float_eval)

lemma time_sleep_raises:
  "time_sleep 10000000000 (Finite False (5242879999528141 / 524288)) = Inl OverflowError"
  "time_sleep 10000000000 (Finite False (4835703277538509 / 524288)) = Inl OSError"
  by (simp_all add: time_sleep_def sleep_nanoseconds_def float_eval)

text \<open>
  C6 as stated fails in three ways, each with \<open>max_requests = 1\<close>, one request stored
  and the clock one second later, so that \<open>can_make_request()\<close> is false. With
  \<open>time_window = 2 ** 1024\<close> the subtraction
  \<open>self.time_window - (...).total_seconds()\<close> raises \<open>OverflowError\<close>, so no waiting
  time is computed. With \<open>time_window = 10 ** 10\<close> the waiting time is
  \<open>9999999999.0\<close>, positive, and \<open>time.sleep(9999999999.1)\<close> raises
  \<open>OverflowError\<close> instead of blocking. With \<open>time_window = 9223372036\<close> and the
  monotonic clock at 10 s, \<open>time.sleep(9223372035.1)\<close> raises \<open>OSError\<close>.
\<close>

theorem wait_if_needed_huge_window_counterexample:
  "0 < max_requests \<lparr>max_requests = 1, time_window = 2 ^ 1024, requests = [0]\<rparr>
   \<and> 0 < time_window \<lparr>max_requests = 1, time_window = 2 ^ 1024, requests = [0]\<rparr>
   \<and> wait_if_needed \<lparr>max_requests = 1, time_window = 2 ^ 1024, requests = [0]\<rparr>
         1000000 1000000 10000000000 = Inl OverflowError
   \<and> \<not> fst (can_make_request
               \<lparr>max_requests = 1, time_window = 10000000000, requests = [0]\<rparr> 1000000)
   \<and> fl_gt_int (fl_sub (Finite False 10000000000) (total_seconds (1000000 - 0))) 0
   \<and> wait_if_needed \<lparr>max_requests = 1, time_window = 10000000000, requests = [0]\<rparr>
         1000000 1000000 10000000000 = Inl OverflowError
   \<and> \<not> fst (can_make_request
               \<lparr>max_requests = 1, time_window = 9223372036, requests = [0]\<rparr> 1000000)
   \<and> fl_gt_int (fl_sub (Finite False 9223372036) (total_seconds (1000000 - 0))) 0
   \<and> wait_if_needed \<lparr>max_requests = 1, time_window = 9223372036, requests = [0]\<rparr>
         1000000 1000000 10000000000 = Inl OSError"
proof -
  have "int_to_float (2 ^ 1024) = Inl OverflowError"
    by (simp add: float_eval)
  then have a: "wait_if_needed \<lparr>max_requests = 1, time_window = 2 ^ 1024, requests = [0]\<rparr>
      1000000 1000000 10000000000 = Inl OverflowError"
    by (simp add: wait_if_needed_unfold can_make_request_def in_window_def total_seconds_eval
        sval_def)
  have b: "\<not> fst (can_make_request
               \<lparr>max_requests = 1, time_window = 10000000000, requests = [0]\<rparr> 1000000)"
    "\<not> fst (can_make_request
               \<lparr>max_requests = 1, time_window = 9223372036, requests = [0]\<rparr> 1000000)"
    by (simp_all add: can_make_request_def in_window_def total_seconds_eval sval_def)
  have c: "wait_if_needed \<lparr>max_requests = 1, time_window = 10000000000, requests = [0]\<rparr>
      1000000 1000000 10000000000 = Inl OverflowError"
    using wait_time_window_1e10
    by (simp add: wait_if_needed_unfold can_make_request_def in_window_def
        total_seconds_eval sval_def time_sleep_raises)
  have d: "wait_if_needed \<lparr>max_requests = 1, time_window = 9223372036, requests = [0]\<rparr>
      1000000 1000000 10000000000 = Inl OSError"
    using wait_time_window_2p63
    by (simp add: wait_if_needed_unfold can_make_request_def in_window_def
        total_seconds_eval sval_def time_sleep_raises)
  have e: "fl_gt_int (fl_sub (Finite False 10000000000) (total_seconds (1000000 - 0))) 0"
    "fl_gt_int (fl_sub (Finite False 9223372036) (total_seconds (1000000 - 0))) 0"
    using wait_time_window_1e10 wait_time_window_2p63 by (simp_all add: sval_def)
  from a b c d e show ?thesis by simp
qed

section \<open>Properties of the emergency functions\<close>

lemma cancel_loop_count:
  "fst (cancel_loop client orders c count)
     = count + int (length (filter id (cancel_trace client orders c)))"
  by (induction orders arbitrary: c count) (auto split: prod.splits)

lemma cancel_trace_length: "length (cancel_trace client orders c) = length orders"
  by (induction orders arbitrary: c) (auto split: prod.splits)

text \<open>
  \<open>emergency_cancel_all\<close>: when the fetch raises the result is zero; otherwise every
  order is tried, whatever happened to the ones before it, and the result is the
  number of successful cancellations.
\<close>

lemma emergency_cancel_all_counts:
  "(fst (fetch_open_orders client c) = Inl e \<longrightarrow> fst (emergency_cancel_all client c) = 0)
   \<and> (fst (fetch_open_orders client c) = Inr orders \<longrightarrow>
        length (cancel_trace client orders (snd (fetch_open_orders client c))) = length orders
        \<and> fst (emergency_cancel_all client c)
            = int (length (filter id
                (cancel_trace client orders (snd (fetch_open_orders client c))))))"
  by (cases "fetch_open_orders client c")
     (auto simp: emergency_cancel_all_def cancel_loop_count cancel_trace_length)

text \<open>A failed cancellation does not stop the loop: the orders after it are still tried.\<close>

lemma cancel_loop_continues:
  "cancel_loop client (order # rest) c count =
     cancel_loop client rest (snd (cancel_one client order c))
       (if fst (cancel_one client order c) then count + 1 else count)"
  by (simp split: prod.splits)

lemma active_positions_unbound:
  "active_positions None positions =
     (if positions = [] then Inr [] else Inl (NameError ''safe_float''))"
  by (cases positions) simp_all

text \<open>
  \<open>emergency_close_all\<close> never submits an order: the result is zero and the client is
  left as \<open>fetch_positions\<close> left it.
\<close>

lemma emergency_close_all_zero:
  "emergency_close_all client c = (0, snd (fetch_positions client c))"
  by (cases "fetch_positions client c")
     (auto simp: emergency_close_all_def emergency_close_all_with_def safe_float_global_def
        active_positions_unbound split: sum.splits)


text \<open>
  With a binding of \<open>safe_float\<close> that reads the size \<open>'0.5'\<close> as \<open>0.5\<close>, the same
  body closes the position and returns one.
\<close>

lemma emergency_close_all_with_binding:
  "emergency_close_all_with (Some (\<lambda>v. Finite False (1 / 2))) logging_client []
     = (1, [''fetch_positions'', ''create_order''])"
  by (simp add: emergency_close_all_with_def logging_client_def fl_nonzero_def fl_eq_def
      sval_def close_one_def position_symbol_size_def fl_gt_def close_failed_def Let_def)


section \<open>Rounding to binary64\<close>

lemma pow2_powi: "pow2 e = 2 powi e"
  by (simp add: pow2_def power_int_def power_one_over)

lemma pow2_add: "pow2 (a + b) = pow2 a * pow2 b"
  by (simp add: pow2_powi power_int_add)

lemma pow2_minus: "pow2 (- a) = 1 / pow2 a"
  by (simp add: pow2_powi power_int_minus_divide)

lemma pow2_mono: "a \<le> b \<Longrightarrow> pow2 a \<le> pow2 b"
  by (simp add: pow2_powi power_int_increasing)

lemma pow2_strict_mono: "a < b \<Longrightarrow> pow2 a < pow2 b"
  by (simp add: pow2_powi power_int_strict_increasing)

lemma pow2_less_imp: "pow2 a < pow2 b \<Longrightarrow> a < b"
  using pow2_mono[of b a] by (cases "a < b") auto

lemma pow2_of_nat: "0 \<le> e \<Longrightarrow> pow2 e = of_int (2 ^ nat e)"
  by (simp add: pow2_def)

lemma ilog2_bounds:
  assumes "0 < x"
  shows "pow2 (ilog2 x) \<le> x" and "x < pow2 (ilog2 x + 1)"
proof -
  have "pow2 (ilog2 x) \<le> x \<and> x < pow2 (ilog2 x + 1)"
  proof (cases "1 \<le> x")
    case True
    define f where "f = \<lfloor>x\<rfloor>"
    define b where "b = bitlen f"
    have f: "1 \<le> f" using True by (simp add: f_def le_floor_iff)
    then have bb: "2 ^ nat (b - 1) \<le> f" "f < 2 ^ nat b"
      using bitlen_bounds[of f] by (simp_all add: b_def)
    have b1: "1 \<le> b"
      using f bitlen_eq_zero_iff[of f] bitlen_nonneg[of f] by (simp add: b_def)
    have "real_of_int (2 ^ nat (b - 1)) \<le> real_of_int f"
      using bb(1) by (rule of_int_le_iff[THEN iffD2])
    also have "\<dots> \<le> x" by (simp add: f_def)
    finally have lo: "pow2 (b - 1) \<le> x"
      using b1 by (simp add: pow2_of_nat)
    have "f + 1 \<le> 2 ^ nat b" using bb(2) by simp
    then have "real_of_int (f + 1) \<le> real_of_int (2 ^ nat b)"
      by (rule of_int_le_iff[THEN iffD2])
    moreover have "x < real_of_int (f + 1)" by (simp add: f_def)
    ultimately have hi: "x < pow2 b"
      using b1 by (simp add: pow2_of_nat)
    from lo hi True show ?thesis by (simp add: ilog2_def f_def b_def)
  next
    case False
    define c where "c = \<lceil>1 / x\<rceil>"
    define d where "d = c - 1"
    define b where "b = bitlen d"
    have inv: "1 < 1 / x" using assms False by simp
    then have "1 < c" by (simp add: c_def less_ceiling_iff)
    then have d: "1 \<le> d" by (simp add: d_def)
    then have bb: "2 ^ nat (b - 1) \<le> d" "d < 2 ^ nat b"
      using bitlen_bounds[of d] by (simp_all add: b_def)
    have b1: "1 \<le> b"
      using d bitlen_eq_zero_iff[of d] bitlen_nonneg[of d] by (simp add: b_def)
    have "c \<le> 2 ^ nat b" using bb(2) by (simp add: d_def)
    then have cr: "real_of_int c \<le> 2 ^ nat b"
      using of_int_le_iff[of c "2 ^ nat b", where ?'a = real] by simp
    have "1 / x \<le> real_of_int c" by (simp add: c_def)
    with cr have "1 / x \<le> 2 ^ nat b" by linarith
    then have "1 \<le> 2 ^ nat b * x"
      using assms by (simp add: field_simps)
    then have lo: "pow2 (- b) \<le> x"
      using b1 by (simp add: pow2_def field_simps)
    have dx: "real_of_int d < 1 / x"
      unfolding d_def c_def by linarith
    have "2 ^ nat (b - 1) \<le> real_of_int d"
      using bb(1) of_int_le_iff[of "2 ^ nat (b - 1)" d, where ?'a = real] by simp
    with dx have "2 ^ nat (b - 1) < 1 / x" by linarith
    then have "2 ^ nat (b - 1) * x < 1"
      using assms by (simp add: field_simps)
    then have hi: "x < pow2 (1 - b)"
      using b1 by (cases "b = 1") (simp_all add: pow2_def field_simps)
    from lo hi False show ?thesis
      by (simp add: ilog2_def c_def d_def b_def)
  qed
  then show "pow2 (ilog2 x) \<le> x" and "x < pow2 (ilog2 x + 1)" by simp_all
qed

lemma round_half_even_error: "\<bar>of_int (round_half_even z) - z\<bar> \<le> 1 / 2"
  unfolding round_half_even_def Let_def by (auto; linarith)

lemma round_half_even_of_int [simp]: "round_half_even (of_int k) = k"
  by (simp add: round_half_even_def)

lemma round_half_even_near:
  assumes "\<bar>z - of_int n\<bar> < 1 / 2"
  shows "round_half_even z = n"
proof (cases "of_int n \<le> z")
  case True
  with assms have "\<lfloor>z\<rfloor> = n" by (intro floor_unique) auto
  with True assms show ?thesis by (simp add: round_half_even_def)
next
  case False
  with assms have f: "\<lfloor>z\<rfloor> = n - 1" by (intro floor_unique) auto
  have "1 / 2 < z - of_int (n - 1)" using assms False by auto
  with f show ?thesis by (simp add: round_half_even_def)
qed


lemma pow2_nonzero [simp]: "pow2 e \<noteq> 0"
  using pow2_pos[of e] by linarith

lemma ulp_pos [simp]: "0 < ulp x"
  by (simp add: ulp_def)

lemma ulp_nonzero [simp]: "ulp x \<noteq> 0"
  by (simp add: ulp_def)

lemma ilog2_unique:
  assumes "pow2 k \<le> x" and "x < pow2 (k + 1)"
  shows "ilog2 x = k"
proof -
  have pos: "0 < x" using assms(1) pow2_pos[of k] by linarith
  have "pow2 (ilog2 x) < pow2 (k + 1)"
    using ilog2_bounds(1)[OF pos] assms(2) by linarith
  then have "ilog2 x < k + 1" by (rule pow2_less_imp)
  moreover have "pow2 k < pow2 (ilog2 x + 1)"
    using ilog2_bounds(2)[OF pos] assms(1) by linarith
  then have "k < ilog2 x + 1" by (rule pow2_less_imp)
  ultimately show ?thesis by simp
qed

lemma ilog2_ge:
  assumes "pow2 k \<le> x"
  shows "k \<le> ilog2 x"
proof -
  have pos: "0 < x" using assms pow2_pos[of k] by linarith
  have "pow2 k < pow2 (ilog2 x + 1)"
    using ilog2_bounds(2)[OF pos] assms by linarith
  then have "k < ilog2 x + 1" by (rule pow2_less_imp)
  then show ?thesis by simp
qed

lemma ilog2_less:
  assumes "0 < x" and "x < pow2 k"
  shows "ilog2 x < k"
proof -
  have "pow2 (ilog2 x) < pow2 k"
    using ilog2_bounds(1)[OF assms(1)] assms(2) by linarith
  then show ?thesis by (rule pow2_less_imp)
qed

lemma ulp_binade:
  assumes "pow2 k \<le> x" and "x < pow2 (k + 1)" and "- 1022 \<le> k"
  shows "ulp x = pow2 (k - 52)"
  using ilog2_unique[OF assms(1,2)] assms(3) by (simp add: ulp_def)

lemma ulp_subnormal:
  assumes "0 < x" and "x < pow2 (- 1021)"
  shows "ulp x = pow2 (- 1074)"
  using ilog2_less[OF assms] by (simp add: ulp_def max_def)

lemma round_binary64_Some:
  assumes "x \<noteq> 0" and "of_int (round_half_even (x / ulp x)) * ulp x < 2 ^ 1024"
  shows "round_binary64 x = Some (of_int (round_half_even (x / ulp x)) * ulp x)"
  using assms by (simp add: round_binary64_def Let_def)

lemma round_binary64_SomeD:
  assumes "round_binary64 x = Some r" and "x \<noteq> 0"
  shows "r = of_int (round_half_even (x / ulp x)) * ulp x"
  using assms by (simp add: round_binary64_def Let_def split: if_splits)

lemma round_binary64_less:
  assumes "round_binary64 x = Some r"
  shows "r < 2 ^ 1024"
  using assms by (simp add: round_binary64_def Let_def split: if_splits)

lemma scaled_round_error:
  assumes "0 < q"
  shows "\<bar>of_int (round_half_even (x / q)) * q - x\<bar> \<le> q / 2"
proof -
  have "of_int (round_half_even (x / q)) * q - x
      = (of_int (round_half_even (x / q)) - x / q) * q"
    using assms by (simp add: field_simps)
  then have "\<bar>of_int (round_half_even (x / q)) * q - x\<bar>
      = \<bar>of_int (round_half_even (x / q)) - x / q\<bar> * q"
    using assms by (simp add: abs_mult)
  also have "\<dots> \<le> (1 / 2) * q"
    using round_half_even_error[of "x / q"] assms by (intro mult_right_mono) auto
  finally show ?thesis by simp
qed

text \<open>In the normal range the relative error of rounding is at most \<open>2^-53\<close>.\<close>

lemma normal_ulp_bound:
  assumes "pow2 (- 1022) \<le> x"
  shows "ulp x \<le> x / 2 ^ 52"
proof -
  have pos: "0 < x" using assms pow2_pos[of "- 1022"] by linarith
  have "- 1022 \<le> ilog2 x" using assms by (rule ilog2_ge)
  then have "ulp x = pow2 (ilog2 x) * pow2 (- 52)"
    using pow2_add[of "ilog2 x" "- 52"] by (simp add: ulp_def max_def)
  also have "\<dots> \<le> x * pow2 (- 52)"
    using ilog2_bounds(1)[OF pos] by (intro mult_right_mono) (auto simp: less_imp_le)
  finally show ?thesis by (simp add: pow2_def)
qed

lemma normal_round_error:
  assumes "pow2 (- 1022) \<le> x"
  shows "\<bar>of_int (round_half_even (x / ulp x)) * ulp x - x\<bar> \<le> x / 2 ^ 53"
proof -
  have "\<bar>of_int (round_half_even (x / ulp x)) * ulp x - x\<bar> \<le> ulp x / 2"
    by (rule scaled_round_error) simp
  also have "\<dots> \<le> (x / 2 ^ 52) / 2"
    using normal_ulp_bound[OF assms] by simp
  finally show ?thesis by simp
qed

text \<open>A magnitude that is a whole number of units in the last place is not changed.\<close>

lemma round_binary64_exact:
  assumes "0 < x" and "x < 2 ^ 1024" and "x / ulp x = of_int k"
  shows "round_binary64 x = Some x"
proof -
  have "round_half_even (x / ulp x) = k"
    by (simp add: assms(3))
  moreover have "of_int k * ulp x = x"
    using assms(3) ulp_pos[of x] by (simp add: field_simps)
  ultimately have "of_int (round_half_even (x / ulp x)) * ulp x = x"
    by simp
  with assms(1,2) show ?thesis
    using round_binary64_Some[of x] by simp
qed

text \<open>The integers below \<open>2^53\<close> are floats.\<close>

lemma round_binary64_of_int:
  assumes "0 \<le> n" and "n < 2 ^ 53"
  shows "round_binary64 (of_int n) = Some (of_int n)"
proof (cases "n = 0")
  case True
  then show ?thesis by simp
next
  case False
  define x :: real where "x = of_int n"
  define e where "e = ilog2 x"
  have x1: "1 \<le> x" using assms(1) False by (simp add: x_def)
  then have pos: "0 < x" by simp
  have "pow2 0 \<le> x" using x1 by (simp add: pow2_def)
  then have e0: "0 \<le> e" unfolding e_def by (rule ilog2_ge)
  have "x < 2 ^ 53"
    using assms(2) of_int_less_iff[of n "2 ^ 53", where ?'a = real] by (simp add: x_def)
  then have x53: "x < pow2 53" by (simp add: pow2_def)
  have e52: "e \<le> 52" using ilog2_less[OF pos x53] by (simp add: e_def)
  have m: "ulp x = pow2 (- (52 - e))" using e0 by (simp add: ulp_def e_def)
  have "x / pow2 (- (52 - e)) = x * pow2 (52 - e)"
    unfolding pow2_minus[of "52 - e"] by simp
  also have "\<dots> = of_int (n * 2 ^ nat (52 - e))"
    using e52 by (simp add: pow2_of_nat x_def)
  finally have a: "x / ulp x = of_int (n * 2 ^ nat (52 - e))"
    using m by simp
  have b: "x < 2 ^ 1024"
  proof -
    have "(2::real) ^ 53 \<le> 2 ^ 1024" by (rule power_increasing) simp_all
    with \<open>x < 2 ^ 53\<close> show ?thesis by linarith
  qed
  show ?thesis
    using round_binary64_exact[OF pos b a] by (simp only: x_def)
qed

text \<open>
  A positive float that is at least \<open>2^k\<close> is a whole number of units \<open>2^(k-52)\<close>;
  every float is a whole number of the smallest subnormal \<open>2^-1074\<close>.
\<close>

lemma float_multiple:
  assumes "round_binary64 f = Some f" and "0 < f" and "- 1022 \<le> k" and "pow2 k \<le> f"
  shows "\<exists>m::int. f = of_int m * pow2 (k - 52)"
proof -
  define E where "E = max (ilog2 f) (- 1022)"
  have "k \<le> ilog2 f" using assms(4) by (rule ilog2_ge)
  then have E: "k \<le> E" by (simp add: E_def)
  have "f \<noteq> 0" using assms(2) by simp
  then have "f = of_int (round_half_even (f / ulp f)) * pow2 (E - 52)"
    using round_binary64_SomeD[OF assms(1)] by (simp add: ulp_def E_def)
  moreover have "pow2 (E - 52) = of_int (2 ^ nat (E - k)) * pow2 (k - 52)"
    using pow2_add[of "E - k" "k - 52"] E by (simp add: pow2_of_nat)
  ultimately have "f = of_int (round_half_even (f / ulp f) * 2 ^ nat (E - k)) * pow2 (k - 52)"
    by simp
  then show ?thesis by blast
qed

lemma float_multiple_of_least:
  assumes "round_binary64 T = Some T" and "0 \<le> T"
  shows "\<exists>k::int. T = of_int k * pow2 (- 1074)"
proof (cases "T = 0")
  case True
  then show ?thesis by (intro exI[of _ 0]) simp
next
  case False
  define E where "E = max (ilog2 T) (- 1022)"
  have E: "- 1022 \<le> E" by (simp add: E_def)
  have "T = of_int (round_half_even (T / ulp T)) * pow2 (E - 52)"
    using round_binary64_SomeD[OF assms(1) False] by (simp add: ulp_def E_def)
  moreover have "pow2 (E - 52) = of_int (2 ^ nat (E + 1022)) * pow2 (- 1074)"
    using pow2_add[of "E + 1022" "- 1074"] E by (simp add: pow2_of_nat)
  ultimately have "T = of_int (round_half_even (T / ulp T) * 2 ^ nat (E + 1022))
      * pow2 (- 1074)"
    by simp
  then show ?thesis by blast
qed

subsection \<open>Rounding to the nearest integer\<close>

lemma round_half_even_ge: "of_int m \<le> z \<Longrightarrow> m \<le> round_half_even z"
  unfolding round_half_even_def Let_def by (auto simp: le_floor_iff; linarith)

lemma round_half_even_le:
  assumes "z \<le> of_int m"
  shows "round_half_even z \<le> m"
proof (cases "z = of_int m")
  case True
  then show ?thesis by simp
next
  case False
  with assms have "z < of_int m" by simp
  then have "\<lfloor>z\<rfloor> < m" by (simp add: floor_less_iff)
  then show ?thesis
    unfolding round_half_even_def Let_def by auto
qed

lemma round_half_even_nearest:
  "\<bar>of_int (round_half_even z) - z\<bar> \<le> \<bar>of_int m - z\<bar>"
proof (cases "m = round_half_even z")
  case True
  then show ?thesis by simp
next
  case False
  then have "1 \<le> \<bar>m - round_half_even z\<bar>" by linarith
  then have "1 \<le> \<bar>real_of_int m - real_of_int (round_half_even z)\<bar>"
    by (metis of_int_1 of_int_abs of_int_diff of_int_le_iff)
  with round_half_even_error[of z] show ?thesis by linarith
qed

lemma round_half_even_tie_even:
  assumes "\<bar>z - of_int k\<bar> \<le> 1 / 2" and "even k"
  shows "round_half_even z = k"
proof (cases "\<bar>z - of_int k\<bar> < 1 / 2")
  case True
  then show ?thesis by (rule round_half_even_near)
next
  case False
  with assms(1) consider "z = of_int k + 1 / 2" | "z = of_int k - 1 / 2" by linarith
  then show ?thesis
  proof cases
    case 1
    then have "\<lfloor>z\<rfloor> = k" by (intro floor_unique) auto
    with 1 assms(2) show ?thesis by (simp add: round_half_even_def)
  next
    case 2
    then have "\<lfloor>z\<rfloor> = k - 1" by (intro floor_unique) auto
    with 2 assms(2) show ?thesis by (simp add: round_half_even_def)
  qed
qed

lemma round_half_even_tie_result:
  assumes "round_half_even z = k" and "\<bar>z - of_int k\<bar> = 1 / 2"
  shows "even k"
proof -
  from assms(2) consider "z = of_int k + 1 / 2" | "z = of_int k - 1 / 2" by linarith
  then show ?thesis
  proof cases
    case 1
    then have "\<lfloor>z\<rfloor> = k" by (intro floor_unique) auto
    with 1 assms(1) show ?thesis by (auto simp: round_half_even_def split: if_splits)
  next
    case 2
    then have "\<lfloor>z\<rfloor> = k - 1" by (intro floor_unique) auto
    with 2 assms(1) show ?thesis
      by (auto simp: round_half_even_def Let_def split: if_splits)
  qed
qed

text \<open>A number at least as close to the integer that \<open>z\<close> rounds to rounds to it too.\<close>

lemma round_half_even_closer:
  assumes "round_half_even z = k" and "\<bar>w - of_int k\<bar> \<le> \<bar>z - of_int k\<bar>"
  shows "round_half_even w = k"
proof (cases "\<bar>w - of_int k\<bar> < 1 / 2")
  case True
  then show ?thesis by (rule round_half_even_near)
next
  case False
  have "\<bar>z - of_int k\<bar> \<le> 1 / 2"
    using round_half_even_error[of z] assms(1) by (simp add: abs_minus_commute)
  with False assms(2) have tie: "\<bar>z - of_int k\<bar> = 1 / 2" "\<bar>w - of_int k\<bar> \<le> 1 / 2"
    by linarith+
  from assms(1) tie(1) have "even k" by (rule round_half_even_tie_result)
  with tie(2) show ?thesis by (rule round_half_even_tie_even)
qed

subsection \<open>The rounded magnitude\<close>

lemma pow2_numeral: "pow2 (numeral n) = 2 ^ numeral n"
  by (simp add: pow2_def)

text \<open>Rounding stays in the binade of \<open>x\<close>, its two ends included.\<close>

lemma candidate_bounds:
  assumes "0 < x" and "- 1022 \<le> ilog2 x"
  shows "pow2 (ilog2 x) \<le> of_int (round_half_even (x / ulp x)) * ulp x"
    and "of_int (round_half_even (x / ulp x)) * ulp x \<le> pow2 (ilog2 x + 1)"
proof -
  define e where "e = ilog2 x"
  have u: "ulp x = pow2 (e - 52)" using assms(2) by (simp add: ulp_def e_def)
  have lo: "pow2 e = of_int (2 ^ 52) * pow2 (e - 52)"
    using pow2_add[of 52 "e - 52"] by (simp add: pow2_numeral)
  have hi: "pow2 (e + 1) = of_int (2 ^ 53) * pow2 (e - 52)"
    using pow2_add[of 53 "e - 52"] by (simp add: pow2_numeral add.commute)
  have "of_int (2 ^ 52) * pow2 (e - 52) \<le> x"
    using ilog2_bounds(1)[OF assms(1)] lo by (simp add: e_def)
  then have "of_int (2 ^ 52) \<le> x / pow2 (e - 52)"
    using pow2_pos[of "e - 52"] by (simp add: field_simps)
  then have "2 ^ 52 \<le> round_half_even (x / pow2 (e - 52))"
    by (rule round_half_even_ge)
  then have "real_of_int (2 ^ 52) \<le> of_int (round_half_even (x / pow2 (e - 52)))"
    by (simp only: of_int_le_iff)
  then have "of_int (2 ^ 52) * pow2 (e - 52)
      \<le> of_int (round_half_even (x / pow2 (e - 52))) * pow2 (e - 52)"
    using pow2_pos[of "e - 52"] by (intro mult_right_mono) (auto simp: less_imp_le)
  then show "pow2 (ilog2 x) \<le> of_int (round_half_even (x / ulp x)) * ulp x"
    using lo u by (simp add: e_def)
  have "x \<le> of_int (2 ^ 53) * pow2 (e - 52)"
    using ilog2_bounds(2)[OF assms(1)] hi by (simp add: e_def)
  then have "x / pow2 (e - 52) \<le> of_int (2 ^ 53)"
    using pow2_pos[of "e - 52"] by (simp add: field_simps)
  then have "round_half_even (x / pow2 (e - 52)) \<le> 2 ^ 53"
    by (rule round_half_even_le)
  then have "real_of_int (round_half_even (x / pow2 (e - 52))) \<le> of_int (2 ^ 53)"
    by (simp only: of_int_le_iff)
  then have "of_int (round_half_even (x / pow2 (e - 52))) * pow2 (e - 52)
      \<le> of_int (2 ^ 53) * pow2 (e - 52)"
    using pow2_pos[of "e - 52"] by (intro mult_right_mono) (auto simp: less_imp_le)
  then show "of_int (round_half_even (x / ulp x)) * ulp x \<le> pow2 (ilog2 x + 1)"
    using hi u by (simp add: e_def)
qed

lemma candidate_subnormal:
  assumes "0 < x" and "ilog2 x < - 1022"
  shows "of_int (round_half_even (x / ulp x)) * ulp x \<le> pow2 (- 1022)"
proof -
  have u: "ulp x = pow2 (- 1074)" using assms(2) by (simp add: ulp_def max_def)
  have hi: "pow2 (- 1022) = of_int (2 ^ 52) * pow2 (- 1074)"
    using pow2_add[of 52 "- 1074"] by (simp add: pow2_numeral)
  have "pow2 (ilog2 x + 1) \<le> pow2 (- 1022)" using assms(2) by (intro pow2_mono) simp
  with ilog2_bounds(2)[OF assms(1)] have "x \<le> of_int (2 ^ 52) * pow2 (- 1074)"
    using hi by linarith
  then have "x / pow2 (- 1074) \<le> of_int (2 ^ 52)"
    using pow2_pos[of "- 1074"] by (simp add: field_simps)
  then have "round_half_even (x / pow2 (- 1074)) \<le> 2 ^ 52"
    by (rule round_half_even_le)
  then have "real_of_int (round_half_even (x / pow2 (- 1074))) \<le> of_int (2 ^ 52)"
    by (simp only: of_int_le_iff)
  then have "of_int (round_half_even (x / pow2 (- 1074))) * pow2 (- 1074)
      \<le> of_int (2 ^ 52) * pow2 (- 1074)"
    using pow2_pos[of "- 1074"] by (intro mult_right_mono) (auto simp: less_imp_le)
  then show ?thesis using hi u by simp
qed

text \<open>A result strictly inside a binade comes from an argument of that binade.\<close>

lemma round_binary64_binade:
  assumes "round_binary64 a = Some N" and "0 < a"
    and "pow2 k < N" and "N < pow2 (k + 1)" and "- 1022 \<le> k"
  shows "ilog2 a = k"
proof -
  have a0: "a \<noteq> 0" using assms(2) by simp
  have N: "N = of_int (round_half_even (a / ulp a)) * ulp a"
    by (rule round_binary64_SomeD[OF assms(1) a0])
  show ?thesis
  proof (cases "ilog2 a < - 1022")
    case True
    have "N \<le> pow2 (- 1022)" unfolding N by (rule candidate_subnormal[OF assms(2) True])
    also have "\<dots> \<le> pow2 k" using assms(5) by (rule pow2_mono)
    finally show ?thesis using assms(3) by simp
  next
    case False
    then have n: "- 1022 \<le> ilog2 a" by simp
    have "pow2 (ilog2 a) \<le> N" unfolding N by (rule candidate_bounds(1)[OF assms(2) n])
    with assms(4) have "pow2 (ilog2 a) < pow2 (k + 1)" by linarith
    then have "ilog2 a < k + 1" by (rule pow2_less_imp)
    moreover have "N \<le> pow2 (ilog2 a + 1)"
      unfolding N by (rule candidate_bounds(2)[OF assms(2) n])
    with assms(3) have "pow2 k < pow2 (ilog2 a + 1)" by linarith
    then have "k < ilog2 a + 1" by (rule pow2_less_imp)
    ultimately show ?thesis by simp
  qed
qed

text \<open>Rounding returns a float nearest to its argument.\<close>

lemma multiple_not_nearer:
  assumes "round_binary64 x = Some r" and "0 < x" and "f = of_int m * ulp x"
  shows "\<bar>r - x\<bar> \<le> \<bar>f - x\<bar>"
proof -
  have x0: "x \<noteq> 0" using assms(2) by simp
  have r: "r = of_int (round_half_even (x / ulp x)) * ulp x"
    by (rule round_binary64_SomeD[OF assms(1) x0])
  have un: "ulp x \<noteq> 0" using ulp_pos[of x] by linarith
  have "r - x = (of_int (round_half_even (x / ulp x)) - x / ulp x) * ulp x"
    using un by (simp add: r field_simps)
  then have a: "\<bar>r - x\<bar> = \<bar>of_int (round_half_even (x / ulp x)) - x / ulp x\<bar> * ulp x"
    by (simp add: abs_mult abs_of_pos)
  have "f - x = (of_int m - x / ulp x) * ulp x"
    using un by (simp add: assms(3) field_simps)
  then have b: "\<bar>f - x\<bar> = \<bar>of_int m - x / ulp x\<bar> * ulp x"
    by (simp add: abs_mult abs_of_pos)
  show ?thesis
    unfolding a b using round_half_even_nearest[of "x / ulp x" m] ulp_pos[of x]
    by (intro mult_right_mono) (auto simp: less_imp_le)
qed

lemma round_binary64_nearest:
  assumes "round_binary64 x = Some r" and "0 < x"
    and "round_binary64 f = Some f" and "0 \<le> f"
  shows "\<bar>r - x\<bar> \<le> \<bar>f - x\<bar>"
proof (cases "ilog2 x \<le> - 1022")
  case True
  then have "ulp x = pow2 (- 1074)" by (simp add: ulp_def max_def)
  with float_multiple_of_least[OF assms(3,4)] obtain m :: int where "f = of_int m * ulp x"
    by auto
  with assms(1,2) show ?thesis by (rule multiple_not_nearer)
next
  case False
  define k where "k = ilog2 x"
  have k: "- 1022 \<le> k" using False by (simp add: k_def)
  have u: "ulp x = pow2 (k - 52)" using k by (simp add: ulp_def k_def)
  show ?thesis
  proof (cases "pow2 k \<le> f")
    case True
    then have "0 < f" using pow2_pos[of k] by linarith
    from float_multiple[OF assms(3) this k True] u obtain m :: int where "f = of_int m * ulp x"
      by auto
    with assms(1,2) show ?thesis by (rule multiple_not_nearer)
  next
    case False
    have "pow2 k = of_int (2 ^ 52) * ulp x"
      using pow2_add[of 52 "k - 52"] u by (simp add: pow2_numeral)
    with assms(1,2) have "\<bar>r - x\<bar> \<le> \<bar>pow2 k - x\<bar>" by (rule multiple_not_nearer)
    moreover have "pow2 k \<le> x" using ilog2_bounds(1)[OF assms(2)] by (simp add: k_def)
    ultimately show ?thesis using False by linarith
  qed
qed

text \<open>What rounding returns is a float.\<close>

lemma round_binary64_idem:
  assumes "round_binary64 x = Some r" and "0 \<le> x"
  shows "round_binary64 r = Some r"
proof (cases "r = 0")
  case True
  then show ?thesis by simp
next
  case False
  have x0: "x \<noteq> 0" using assms(1) False by (auto simp: round_binary64_def)
  with assms(2) have xpos: "0 < x" by simp
  have r: "r = of_int (round_half_even (x / ulp x)) * ulp x"
    by (rule round_binary64_SomeD[OF assms(1) x0])
  have "0 \<le> r" using assms by (rule round_binary64_nonneg)
  with False have rpos: "0 < r" by simp
  have lt: "r < 2 ^ 1024" using assms(1) by (rule round_binary64_less)
  define E where "E = max (ilog2 x) (- 1022)"
  have u: "ulp x = pow2 (E - 52)" by (simp add: ulp_def E_def)
  have E: "- 1022 \<le> E" by (simp add: E_def)
  have hi: "r \<le> pow2 (E + 1)"
  proof (cases "ilog2 x < - 1022")
    case True
    have "r \<le> pow2 (- 1022)" unfolding r by (rule candidate_subnormal[OF xpos True])
    also have "\<dots> \<le> pow2 (E + 1)" using E by (intro pow2_mono) simp
    finally show ?thesis .
  next
    case False
    then have "r \<le> pow2 (ilog2 x + 1)" unfolding r by (intro candidate_bounds(2)[OF xpos]) simp
    with False show ?thesis by (simp add: E_def max_def)
  qed
  show ?thesis
  proof (cases "r = pow2 (E + 1)")
    case True
    have "pow2 (E + 1) \<le> r" "r < pow2 (E + 1 + 1)"
      using True pow2_strict_mono[of "E + 1" "E + 1 + 1"] by simp_all
    then have "ulp r = pow2 (E + 1 - 52)" using E by (intro ulp_binade) auto
    moreover have "pow2 (E + 1) = of_int (2 ^ 52) * pow2 (E + 1 - 52)"
      using pow2_add[of 52 "E + 1 - 52"] by (simp add: pow2_numeral add.commute)
    ultimately have "r / ulp r = of_int (2 ^ 52)"
      using True pow2_pos[of "E + 1 - 52"] by simp
    with rpos lt show ?thesis by (rule round_binary64_exact)
  next
    case False
    with hi have less: "r < pow2 (E + 1)" by simp
    have "ulp r = pow2 (E - 52)"
    proof (cases "pow2 E \<le> r")
      case True
      then show ?thesis using less E by (rule ulp_binade)
    next
      case False
      then have "ilog2 r < E" using rpos by (intro ilog2_less) auto
      moreover have "E = - 1022"
      proof (rule ccontr)
        assume "E \<noteq> - 1022"
        then have n: "- 1022 \<le> ilog2 x" "E = ilog2 x"
          by (auto simp: E_def max_def split: if_splits)
        have "pow2 (ilog2 x) \<le> r" unfolding r by (rule candidate_bounds(1)[OF xpos n(1)])
        with False n(2) show False by simp
      qed
      ultimately show ?thesis by (simp add: ulp_def max_def)
    qed
    then have "r / ulp r = of_int (round_half_even (x / ulp x))"
      using u r pow2_pos[of "E - 52"] by simp
    with rpos lt show ?thesis by (rule round_binary64_exact)
  qed
qed

text \<open>Scaling a float by a power of two is exact.\<close>

lemma pow2_scaling_exact:
  assumes "round_binary64 T = Some T" and "0 < T" and "0 \<le> k"
    and "round_binary64 (pow2 k * T) = Some r"
  shows "r = pow2 k * T"
proof -
  define x where "x = pow2 k * T"
  have xpos: "0 < x" using assms(2) by (simp add: x_def)
  define e where "e = ilog2 T"
  have "pow2 (e + k) \<le> x"
    using ilog2_bounds(1)[OF assms(2)] pow2_add[of e k] pow2_pos[of k]
    by (simp add: x_def e_def mult.commute)
  moreover have "x < pow2 (e + k + 1)"
    using ilog2_bounds(2)[OF assms(2)] pow2_add[of "e + 1" k] pow2_pos[of k]
    by (simp add: x_def e_def mult.commute add.commute add.left_commute)
  ultimately have ex: "ilog2 x = e + k" by (rule ilog2_unique)
  define eT where "eT = max e (- 1022)"
  define eX where "eX = max (e + k) (- 1022)"
  have le: "eX \<le> eT + k" using assms(3) by (simp add: eT_def eX_def)
  have T0: "T \<noteq> 0" using assms(2) by simp
  have T: "T = of_int (round_half_even (T / ulp T)) * pow2 (eT - 52)"
    using round_binary64_SomeD[OF assms(1) T0] by (simp add: ulp_def eT_def e_def)
  have "pow2 k * pow2 (eT - 52) = pow2 (eT + k - eX) * pow2 (eX - 52)"
    using pow2_add[of k "eT - 52"] pow2_add[of "eT + k - eX" "eX - 52"]
    by (simp add: algebra_simps)
  also have "\<dots> = of_int (2 ^ nat (eT + k - eX)) * pow2 (eX - 52)"
    using le by (simp add: pow2_of_nat)
  finally have step: "pow2 k * pow2 (eT - 52) = of_int (2 ^ nat (eT + k - eX)) * pow2 (eX - 52)" .
  have "x = of_int (round_half_even (T / ulp T)) * (pow2 k * pow2 (eT - 52))"
    using T by (simp add: x_def)
  then have "x = of_int (round_half_even (T / ulp T) * 2 ^ nat (eT + k - eX)) * pow2 (eX - 52)"
    unfolding step by simp
  moreover have ux: "ulp x = pow2 (eX - 52)" by (simp add: ulp_def ex eX_def)
  ultimately have "x / ulp x = of_int (round_half_even (T / ulp T) * 2 ^ nat (eT + k - eX))"
    using pow2_pos[of "eX - 52"] by simp
  then have "of_int (round_half_even (x / ulp x)) * ulp x = x"
    using ulp_pos[of x] by (simp only: round_half_even_of_int) (simp add: field_simps)
  moreover have "x \<noteq> 0" using xpos by simp
  ultimately show ?thesis
    using round_binary64_SomeD[of x r] assms(4) by (simp add: x_def)
qed

text \<open>The integer that a float rounds to is a float.\<close>

lemma round_half_even_float:
  assumes "round_binary64 Q = Some Q" and "0 \<le> Q"
  shows "round_binary64 (of_int (round_half_even Q)) = Some (of_int (round_half_even Q))"
proof (cases "pow2 52 \<le> Q")
  case True
  then have "0 < Q" using pow2_pos[of 52] by linarith
  from float_multiple[OF assms(1) this _ True] obtain m :: int where "Q = of_int m"
    by (auto simp: pow2_def)
  with assms(1) show ?thesis by simp
next
  case False
  then have "Q \<le> of_int (2 ^ 52)" by (simp add: pow2_numeral)
  then have "round_half_even Q \<le> 2 ^ 52" by (rule round_half_even_le)
  then have "round_half_even Q < 2 ^ 53" by simp
  moreover have "0 \<le> round_half_even Q" using assms(2) by (rule round_half_even_nonneg)
  ultimately show ?thesis by (intro round_binary64_of_int)
qed

subsection \<open>A whole number of ticks\<close>

text \<open>
  Rounding \<open>n * T\<close>, for a whole number \<open>n\<close> of ticks \<open>T\<close>, moves it by at most
  \<open>n * T / 2^53\<close>: in the subnormal range the product is a float already.
\<close>

lemma ticks_round_error:
  assumes T: "0 < T" "round_binary64 T = Some T"
    and n: "0 < n"
    and r: "round_binary64 (of_int n * T) = Some r"
  shows "\<bar>r - of_int n * T\<bar> \<le> of_int n * T / 2 ^ 53"
proof -
  define x where "x = of_int n * T"
  have pos: "0 < x" using T(1) n by (simp add: x_def)
  have rx: "round_binary64 x = Some r" using r by (simp add: x_def)
  have x0: "x \<noteq> 0" using pos by simp
  have r_eq: "r = of_int (round_half_even (x / ulp x)) * ulp x"
    by (rule round_binary64_SomeD[OF rx x0])
  show ?thesis
  proof (cases "pow2 (- 1022) \<le> x")
    case True
    then show ?thesis
      using normal_round_error[of x] r_eq by (simp add: x_def)
  next
    case False
    then have "x < pow2 (- 1021)"
      using pow2_mono[of "- 1022" "- 1021"] by simp
    with pos have u: "ulp x = pow2 (- 1074)" by (rule ulp_subnormal)
    obtain k :: int where k: "T = of_int k * pow2 (- 1074)"
      using float_multiple_of_least[OF T(2)] T(1) by auto
    have "x / pow2 (- 1074) = of_int (n * k)"
      using k by (simp add: x_def)
    then have "round_half_even (x / pow2 (- 1074)) = n * k"
      by (simp only: round_half_even_of_int)
    then have "r = of_int (n * k) * pow2 (- 1074)"
      using r_eq u by simp
    then have "r = x" using k by (simp add: x_def)
    then show ?thesis using pos by (simp add: x_def)
  qed
qed

text \<open>
  Below \<open>2^51\<close> ticks, dividing the rounded product by the tick and rounding to an
  integer gives the number of ticks back.
\<close>

lemma tick_roundtrip_small:
  assumes T: "0 < T" "round_binary64 T = Some T"
    and n: "0 \<le> n" "n < 2 ^ 51"
    and r: "round_binary64 (of_int n * T) = Some r"
  shows "\<exists>Q. round_binary64 (r / T) = Some Q \<and> round_half_even Q = n"
proof (cases "n = 0")
  case True
  with r have "r = 0" by simp
  with True show ?thesis by simp
next
  case False
  with n have npos: "0 < n" by simp
  define y where "y = r / T"
  define N :: real where "N = of_int n"
  have N1: "1 \<le> N" using npos by (simp add: N_def)
  have "n \<le> 2 ^ 51 - 1" using n(2) by simp
  then have "N \<le> 2 ^ 51 - 1"
    using of_int_le_iff[of n "2 ^ 51 - 1", where ?'a = real] by (simp add: N_def)
  then have Nb: "N \<le> 2251799813685247" by simp
  have "\<bar>r - N * T\<bar> \<le> N * T / 2 ^ 53"
    using ticks_round_error[OF T npos r] by (simp add: N_def)
  then have "\<bar>r - N * T\<bar> / T \<le> (N * T / 2 ^ 53) / T"
    using T(1) by (intro divide_right_mono) auto
  moreover have "\<bar>r - N * T\<bar> / T = \<bar>y - N\<bar>"
  proof -
    have "y - N = (r - N * T) / T" using T(1) by (simp add: y_def field_simps)
    then show ?thesis using T(1) by (simp add: abs_divide)
  qed
  ultimately have yN: "\<bar>y - N\<bar> \<le> N / 2 ^ 53" using T(1) by simp
  have small: "N / 2 ^ 53 < 1 / 4" using Nb by simp
  have y_lo: "3 / 4 \<le> y" and y_hi: "y \<le> N + 1 / 4"
    using yN N1 small by linarith+
  have ynorm: "pow2 (- 1022) \<le> y"
  proof -
    have "pow2 (- 1022) \<le> pow2 (- 1)" by (rule pow2_mono) simp
    also have "\<dots> = 1 / 2" by (simp add: pow2_def)
    finally show ?thesis using y_lo by linarith
  qed
  define Q where "Q = of_int (round_half_even (y / ulp y)) * ulp y"
  have Qy: "\<bar>Q - y\<bar> \<le> y / 2 ^ 53"
    using normal_round_error[OF ynorm] by (simp add: Q_def)
  have "Q \<le> y + y / 2 ^ 53" using Qy by linarith
  also have "\<dots> < 2 ^ 52" using y_hi Nb by simp
  also have "(2::real) ^ 52 \<le> 2 ^ 1024" by (rule power_increasing) simp_all
  finally have "Q < 2 ^ 1024" .
  moreover have "y \<noteq> 0" using y_lo by auto
  ultimately have "round_binary64 y = Some Q"
    using round_binary64_Some[of y] by (simp add: Q_def)
  moreover have "\<bar>Q - N\<bar> < 1 / 2"
  proof -
    have "\<bar>Q - N\<bar> \<le> \<bar>Q - y\<bar> + \<bar>y - N\<bar>" by linarith
    also have "\<dots> \<le> y / 2 ^ 53 + N / 2 ^ 53" using Qy yN by linarith
    also have "\<dots> < 1 / 2" using y_hi Nb by simp
    finally show ?thesis .
  qed
  then have "round_half_even Q = n"
    unfolding N_def by (rule round_half_even_near)
  ultimately show ?thesis by (auto simp: y_def)
qed

text \<open>
  If \<open>a\<close> rounds to a float \<open>N\<close> strictly inside a binade, then every \<open>b\<close> that is
  at least as close to \<open>N\<close> rounds to \<open>N\<close> as well.
\<close>

lemma round_binary64_closer:
  assumes a: "0 < a" "round_binary64 a = Some N"
    and k: "- 1022 \<le> k" "pow2 k < N" "N < pow2 (k + 1)"
    and b: "\<bar>b - N\<bar> \<le> \<bar>a - N\<bar>"
  shows "round_binary64 b = Some N"
proof -
  define u where "u = pow2 (k - 52)"
  define j where "j = round_half_even (a / u)"
  have upos: "0 < u" by (simp add: u_def)
  have ka: "ilog2 a = k" by (rule round_binary64_binade[OF a(2) a(1) k(2) k(3) k(1)])
  then have ua: "ulp a = u" using k(1) by (simp add: ulp_def u_def)
  have a0: "a \<noteq> 0" using a(1) by simp
  have N: "N = of_int j * u"
    using round_binary64_SomeD[OF a(2) a0] ua by (simp add: j_def)
  have lo: "pow2 k = of_int (2 ^ 52) * u"
    using pow2_add[of 52 "k - 52"] by (simp add: pow2_numeral u_def)
  have hi: "pow2 (k + 1) = of_int (2 ^ 53) * u"
    using pow2_add[of 53 "k - 52"] by (simp add: pow2_numeral u_def add.commute)
  have "real_of_int (2 ^ 52) * u < of_int j * u" using k(2) lo N by simp
  then have "real_of_int (2 ^ 52) < of_int j" using upos by simp
  then have "2 ^ 52 < j" by (simp only: of_int_less_iff)
  then have "2 ^ 52 + 1 \<le> j" by simp
  then have "real_of_int (2 ^ 52 + 1) \<le> of_int j" by (simp only: of_int_le_iff)
  then have jlo: "2 ^ 52 + 1 \<le> real_of_int j" by simp
  have "real_of_int j * u < of_int (2 ^ 53) * u" using k(3) hi N by simp
  then have "real_of_int j < of_int (2 ^ 53)" using upos by simp
  then have "j < 2 ^ 53" by (simp only: of_int_less_iff)
  then have "j \<le> 2 ^ 53 - 1" by simp
  then have "real_of_int j \<le> of_int (2 ^ 53 - 1)" by (simp only: of_int_le_iff)
  then have jhi: "real_of_int j \<le> 2 ^ 53 - 1" by simp
  have scale: "\<bar>z / u - of_int j\<bar> = \<bar>z - N\<bar> / u" for z
  proof -
    have "z / u - of_int j = (z - N) / u" using upos by (simp add: N field_simps)
    then show ?thesis using upos by (simp add: abs_divide)
  qed
  have aj: "\<bar>a / u - of_int j\<bar> \<le> 1 / 2"
    using round_half_even_error[of "a / u"] by (simp add: j_def abs_minus_commute)
  have bj: "\<bar>b / u - of_int j\<bar> \<le> \<bar>a / u - of_int j\<bar>"
    unfolding scale using b upos by (intro divide_right_mono) auto
  with aj have bh: "\<bar>b / u - of_int j\<bar> \<le> 1 / 2" by linarith
  have "2 ^ 52 + 1 / 2 \<le> b / u" "b / u \<le> 2 ^ 53 - 1 / 2"
    using bh jlo jhi by linarith+
  then have "(2 ^ 52 + 1 / 2) * u \<le> b" "b \<le> (2 ^ 53 - 1 / 2) * u"
    using upos by (simp_all add: field_simps)
  moreover have "pow2 k < (2 ^ 52 + 1 / 2) * u" "(2 ^ 53 - 1 / 2) * u < pow2 (k + 1)"
    using lo hi upos by simp_all
  ultimately have bk: "pow2 k \<le> b" "b < pow2 (k + 1)" by linarith+
  have ub: "ulp b = u" unfolding u_def by (rule ulp_binade[OF bk k(1)])
  have rj: "round_half_even (b / u) = j"
    by (rule round_half_even_closer[OF j_def[symmetric] bj])
  have cand: "of_int (round_half_even (b / ulp b)) * ulp b = N"
    by (simp only: ub rj N)
  have nz: "b \<noteq> 0" using bk(1) pow2_pos[of k] by linarith
  have "of_int (round_half_even (b / ulp b)) * ulp b < 2 ^ 1024"
    unfolding cand using a(2) by (rule round_binary64_less)
  from round_binary64_Some[OF nz this] show ?thesis unfolding cand .
qed

text \<open>
  Between \<open>2^51\<close> and \<open>2^52\<close> the floats are the multiples of one half, and the
  quotient is rounded twice, to a float and then to an integer.
\<close>

lemma tick_roundtrip_half:
  assumes a: "0 < a" "round_binary64 a = Some Q" "round_half_even Q = n"
    and n: "2 ^ 51 < n" "n < 2 ^ 52"
    and b: "\<bar>b - of_int n\<bar> \<le> \<bar>a - of_int n\<bar>" "\<bar>b - of_int n\<bar> < 1 / 2"
  shows "\<exists>Q'. round_binary64 b = Some Q' \<and> round_half_even Q' = n"
proof -
  define N :: real where "N = of_int n"
  have "2 ^ 51 + 1 \<le> n" "n \<le> 2 ^ 52 - 1" using n by simp_all
  then have "real_of_int (2 ^ 51 + 1) \<le> of_int n" "real_of_int n \<le> of_int (2 ^ 52 - 1)"
    by (simp_all only: of_int_le_iff)
  then have Nlo: "2 ^ 51 + 1 \<le> N" and Nhi: "N \<le> 2 ^ 52 - 1" by (simp_all add: N_def)
  have p51: "pow2 51 = 2 ^ 51" and p52: "pow2 (51 + 1) = 2 ^ 52" and ph: "pow2 (51 - 52) = 1 / 2"
    by (simp_all add: pow2_def)
  have QN: "\<bar>Q - N\<bar> \<le> 1 / 2"
    using round_half_even_error[of Q] a(3) by (simp add: N_def abs_minus_commute)
  then have "pow2 51 < Q" "Q < pow2 (51 + 1)"
    unfolding p51 p52 using Nlo Nhi by linarith+
  then have "ilog2 a = 51" by (intro round_binary64_binade[OF a(2) a(1)]) simp_all
  then have ua: "ulp a = 1 / 2" by (simp add: ulp_def pow2_def)
  have a0: "a \<noteq> 0" using a(1) by simp
  define c where "c = round_half_even (a / (1 / 2))"
  have Q: "Q = of_int c * (1 / 2)"
    using round_binary64_SomeD[OF a(2) a0] ua by (simp add: c_def)
  have bN: "N - 1 / 2 < b" "b < N + 1 / 2"
    using b(2) unfolding N_def abs_less_iff by linarith+
  have "pow2 51 \<le> b" "b < pow2 (51 + 1)"
    unfolding p51 p52 using bN Nlo Nhi by linarith+
  then have "ulp b = pow2 (51 - 52)" by (intro ulp_binade) simp_all
  then have ub: "ulp b = 1 / 2" by (simp add: pow2_def)
  define c' where "c' = round_half_even (b / (1 / 2))"
  define Q' where "Q' = real_of_int c' * (1 / 2)"
  have err: "\<bar>Q' - b\<bar> \<le> 1 / 4"
    using scaled_round_error[of "1 / 2" b] by (simp add: Q'_def c'_def)
  have errD: "Q' - b \<le> 1 / 4" "b - Q' \<le> 1 / 4"
    using err unfolding abs_le_iff by linarith+
  have "Q' \<le> 2 ^ 52" using errD bN Nhi by linarith
  also have "(2::real) ^ 52 < 2 ^ 1024" by (rule power_strict_increasing) simp_all
  finally have "Q' < 2 ^ 1024" .
  moreover have "b \<noteq> 0" using \<open>pow2 51 \<le> b\<close> pow2_pos[of 51] by linarith
  ultimately have rb: "round_binary64 b = Some Q'"
    using round_binary64_Some[of b] ub by (simp add: Q'_def c'_def)
  have "round_half_even Q' = n"
  proof (cases "even n")
    case True
    have "Q' - N < 3 / 4" "N - Q' < 3 / 4" using errD bN by linarith+
    then have "real_of_int c' < of_int (2 * n + 2)" "real_of_int (2 * n - 2) < of_int c'"
      unfolding Q'_def N_def by simp_all
    then have "c' < 2 * n + 2" "2 * n - 2 < c'" by (simp_all only: of_int_less_iff)
    then have "c' \<le> 2 * n + 1" "2 * n - 1 \<le> c'" by simp_all
    then have "real_of_int c' \<le> of_int (2 * n + 1)" "real_of_int (2 * n - 1) \<le> of_int c'"
      by (simp_all only: of_int_le_iff)
    then have "Q' - of_int n \<le> 1 / 2" "of_int n - Q' \<le> 1 / 2"
      unfolding Q'_def by simp_all
    then have "\<bar>Q' - of_int n\<bar> \<le> 1 / 2" unfolding abs_le_iff by linarith
    then show ?thesis using True by (rule round_half_even_tie_even)
  next
    case False
    have "\<bar>Q - of_int n\<bar> \<noteq> 1 / 2"
      using round_half_even_tie_result[OF a(3)] False by blast
    with QN have "\<bar>Q - N\<bar> < 1 / 2" unfolding N_def by linarith
    then have "Q - N < 1 / 2" "N - Q < 1 / 2" unfolding abs_less_iff by linarith+
    then have "real_of_int c < of_int (2 * n + 1)" "real_of_int (2 * n - 1) < of_int c"
      unfolding Q N_def by simp_all
    then have "c < 2 * n + 1" "2 * n - 1 < c" by (simp_all only: of_int_less_iff)
    then have "c = 2 * n" by simp
    then have ra: "round_half_even (a / (1 / 2)) = 2 * n" by (simp add: c_def)
    have dbl: "\<bar>z / (1 / 2) - of_int (2 * n)\<bar> = 2 * \<bar>z - of_int n\<bar>" for z :: real
    proof -
      have eq: "z / (1 / 2) - of_int (2 * n) = 2 * (z - of_int n)" by simp
      show ?thesis unfolding eq by (simp only: abs_mult abs_numeral)
    qed
    have "\<bar>b / (1 / 2) - of_int (2 * n)\<bar> \<le> \<bar>a / (1 / 2) - of_int (2 * n)\<bar>"
      unfolding dbl using b(1) by (rule mult_left_mono) simp
    with ra have "round_half_even (b / (1 / 2)) = 2 * n" by (rule round_half_even_closer)
    then have "Q' = of_int n" by (simp add: Q'_def c'_def)
    then show ?thesis by simp
  qed
  with rb show ?thesis by blast
qed

text \<open>
  The number of ticks survives the round trip: with \<open>n = round(P / T)\<close> and \<open>r\<close> the
  float \<open>n * T\<close>, \<open>round(r / T)\<close> is \<open>n\<close> again.
\<close>

lemma tick_roundtrip:
  assumes T: "0 < T" "round_binary64 T = Some T"
    and P: "0 < P" "round_binary64 P = Some P"
    and Q: "round_binary64 (P / T) = Some Q"
    and r: "round_binary64 (of_int (round_half_even Q) * T) = Some r"
  shows "\<exists>Q'. round_binary64 (r / T) = Some Q' \<and> round_half_even Q' = round_half_even Q"
proof -
  define n where "n = round_half_even Q"
  define N :: real where "N = of_int n"
  have apos: "0 < P / T" using T(1) P(1) by simp
  then have Q0: "0 \<le> Q" using round_binary64_nonneg[OF Q] by simp
  then have n0: "0 \<le> n" unfolding n_def by (rule round_half_even_nonneg)
  have FQ: "round_binary64 Q = Some Q" using Q apos by (intro round_binary64_idem[OF Q]) simp
  have FN: "round_binary64 N = Some N"
    unfolding N_def n_def by (rule round_half_even_float[OF FQ Q0])
  have rn: "round_binary64 (N * T) = Some r" using r by (simp add: N_def n_def)
  show ?thesis
  proof (cases "n < 2 ^ 51")
    case True
    from tick_roundtrip_small[OF T n0 True] r show ?thesis by (simp add: n_def)
  next
    case False
    then have "2 ^ 51 \<le> n" by simp
    then have "real_of_int (2 ^ 51) \<le> of_int n" by (simp only: of_int_le_iff)
    then have N51: "pow2 51 \<le> N" by (simp add: N_def pow2_def)
    then have Npos: "0 < N" using pow2_pos[of 51] by linarith
    then have npos: "0 < n" by (simp add: N_def)
    define k where "k = ilog2 N"
    have k51: "51 \<le> k" unfolding k_def using N51 by (rule ilog2_ge)
    have kb: "pow2 k \<le> N" "N < pow2 (k + 1)"
      using ilog2_bounds[OF Npos] by (simp_all add: k_def)
    show ?thesis
    proof (cases "N = pow2 k")
      case True
      have "r = pow2 k * T"
        using pow2_scaling_exact[OF T(2) T(1), of k r] k51 rn True by simp
      then have "r / T = N" using T(1) True by simp
      with FN show ?thesis by (auto simp: N_def n_def)
    next
      case False
      with kb(1) have klt: "pow2 k < N" by simp
      have xpos: "0 < N * T" using Npos T(1) by simp
      have "\<bar>r - N * T\<bar> \<le> \<bar>P - N * T\<bar>"
        using round_binary64_nearest[OF rn xpos P(2)] P(1) by simp
      then have "\<bar>r - N * T\<bar> / T \<le> \<bar>P - N * T\<bar> / T"
        using T(1) by (intro divide_right_mono) auto
      moreover have "\<bar>z - N * T\<bar> / T = \<bar>z / T - N\<bar>" for z
      proof -
        have "z / T - N = (z - N * T) / T" using T(1) by (simp add: field_simps)
        then show ?thesis using T(1) by (simp add: abs_divide)
      qed
      ultimately have closer: "\<bar>r / T - N\<bar> \<le> \<bar>P / T - N\<bar>" by simp
      show ?thesis
      proof (cases "52 \<le> k")
        case True
        have "pow2 52 \<le> pow2 k" using True by (rule pow2_mono)
        with klt have "real_of_int (2 ^ 52) < of_int n" by (simp add: N_def pow2_numeral)
        then have "2 ^ 52 < n" by (simp only: of_int_less_iff)
        then have "2 ^ 52 + 1 \<le> n" by simp
        then have "real_of_int (2 ^ 52 + 1) \<le> of_int n" by (simp only: of_int_le_iff)
        then have "2 ^ 52 + 1 \<le> N" by (simp add: N_def)
        moreover have "\<bar>N - Q\<bar> \<le> 1 / 2"
          using round_half_even_error[of Q] by (simp add: N_def n_def)
        then have "N - Q \<le> 1 / 2" unfolding abs_le_iff by linarith
        moreover have "pow2 52 = 2 ^ 52" by (simp add: pow2_def)
        ultimately have Q52: "pow2 52 \<le> Q" by linarith
        then have "0 < Q" using pow2_pos[of 52] by linarith
        from float_multiple[OF FQ this _ Q52] obtain m :: int where "Q = of_int m"
          by (auto simp: pow2_def)
        then have "Q = N" by (simp add: N_def n_def)
        with Q have "round_binary64 (P / T) = Some N" by simp
        from round_binary64_closer[OF apos this _ klt kb(2) closer] k51
        have "round_binary64 (r / T) = Some N" by simp
        then show ?thesis by (auto simp: N_def n_def)
      next
        case False
        with k51 have k: "k = 51" by simp
        have "real_of_int (2 ^ 51) < of_int n" "real_of_int n < of_int (2 ^ 52)"
          using klt kb(2) by (simp_all add: k N_def pow2_def)
        then have nb: "2 ^ 51 < n" "n < 2 ^ 52" by (simp_all only: of_int_less_iff)
        have "\<bar>r - N * T\<bar> \<le> N * T / 2 ^ 53"
          using ticks_round_error[OF T npos] rn by (simp add: N_def)
        then have "\<bar>r - N * T\<bar> / T \<le> (N * T / 2 ^ 53) / T"
          using T(1) by (intro divide_right_mono) auto
        moreover have "\<bar>r - N * T\<bar> / T = \<bar>r / T - N\<bar>"
        proof -
          have "r / T - N = (r - N * T) / T" using T(1) by (simp add: field_simps)
          then show ?thesis using T(1) by (simp add: abs_divide)
        qed
        ultimately have "\<bar>r / T - N\<bar> \<le> N / 2 ^ 53" using T(1) by simp
        moreover have "N < 2 ^ 52" using kb(2) by (simp add: k pow2_def)
        ultimately have "\<bar>r / T - N\<bar> < 1 / 2" by simp
        from tick_roundtrip_half[OF apos Q _ nb, of "r / T"] closer this
        show ?thesis by (simp add: N_def n_def)
      qed
    qed
  qed
qed

subsection \<open>Idempotence of \<open>round_to_tick_size\<close>\<close>

lemma int_to_float_round:
  assumes "round_binary64 Q = Some Q" and "0 \<le> Q"
  shows "int_to_float (round_half_even Q) = Inr (Finite False (of_int (round_half_even Q)))"
proof -
  have "0 \<le> round_half_even Q" using assms(2) by (rule round_half_even_nonneg)
  with round_half_even_float[OF assms] show ?thesis by (simp add: int_to_float_def)
qed

lemma round_to_tick_size_positive:
  assumes "0 < T" and "0 \<le> P" and "round_binary64 (P / T) = Some Q"
  shows "round_to_tick_size (Finite False P) (Finite False T)
     = Inr (fl_round False (of_int (round_half_even Q) * T))"
proof -
  have x: "0 \<le> P / T" using assms(1,2) by simp
  have Q0: "0 \<le> Q" using assms(3) x by (rule round_binary64_nonneg)
  have "round_binary64 Q = Some Q" using assms(3) x by (rule round_binary64_idem)
  then have "int_to_float (round_half_even Q) = Inr (Finite False (of_int (round_half_even Q)))"
    using Q0 by (rule int_to_float_round)
  with assms(1,3) show ?thesis
    by (simp add: round_to_tick_size_def fl_round_def)
qed

text \<open>
  C4 (amended). \<open>round_to_tick_size\<close> is idempotent on the finite values it returns:
  for positive floats \<open>p\<close> and \<open>t\<close>, when \<open>round_to_tick_size(p, t)\<close> returns a finite
  value \<open>r\<close>, then \<open>round_to_tick_size(r, t)\<close> returns \<open>r\<close> again. The function is
  \<open>round(price / tick_size) * tick_size\<close> in binary64 arithmetic, the division and
  the product rounded to nearest, ties to even, and \<open>round\<close> rounding to the nearest
  integer, ties to even.
\<close>

theorem round_to_tick_size_idempotent:
  assumes "is_float price" and "is_float tick_size"
    and "fl_gt price (Finite False 0)" and "fl_gt tick_size (Finite False 0)"
    and "round_to_tick_size price tick_size = Inr (Finite s r)"
  shows "round_to_tick_size (Finite s r) tick_size = Inr (Finite s r)"
proof (cases tick_size)
  case NaN
  with assms(4) show ?thesis by (simp add: fl_gt_def)
next
  case (Infinity st)
  show ?thesis
  proof (cases price)
    case (Finite sp P)
    have "round_to_tick_size (Finite sp P) (Infinity st) = Inr NaN"
      by (simp add: round_to_tick_size_def int_to_float_def)
    with Finite Infinity assms(5) show ?thesis by simp
  next
    case (Infinity sp)
    have "round_to_tick_size (Infinity sp) (Infinity st) = Inl ValueError"
      by (simp add: round_to_tick_size_def)
    with Infinity \<open>tick_size = Infinity st\<close> assms(5) show ?thesis by simp
  next
    case NaN
    with assms(3) show ?thesis by (simp add: fl_gt_def)
  qed
next
  case (Finite st T)
  with assms(2,4) have T: "0 < T" "round_binary64 T = Some T" and st: "st = False"
    by (auto simp: fl_gt_def sval_def split: if_splits)
  show ?thesis
  proof (cases price)
    case NaN
    with assms(3) show ?thesis by (simp add: fl_gt_def)
  next
    case (Infinity sp)
    have "round_to_tick_size (Infinity sp) (Finite False T) = Inl OverflowError"
      using T(1) by (simp add: round_to_tick_size_def)
    with Infinity Finite st assms(5) show ?thesis by simp
  next
    case P: (Finite sp P)
    with assms(1,3) have P0: "0 < P" "round_binary64 P = Some P" and sp: "sp = False"
      by (auto simp: fl_gt_def sval_def split: if_splits)
    have call: "round_to_tick_size (Finite False P) (Finite False T) = Inr (Finite s r)"
      using assms(5) P Finite st sp by simp
    obtain Q where Q: "round_binary64 (P / T) = Some Q"
    proof (cases "round_binary64 (P / T)")
      case None
      then have "round_to_tick_size (Finite False P) (Finite False T) = Inl OverflowError"
        using T(1) by (simp add: round_to_tick_size_def fl_round_def)
      with call show ?thesis by simp
    next
      case (Some Q)
      then show ?thesis by (rule that)
    qed
    define n where "n = round_half_even Q"
    have P0': "0 \<le> P" using P0(1) by simp
    have "round_to_tick_size (Finite False P) (Finite False T)
        = Inr (fl_round False (of_int n * T))"
      unfolding n_def using T(1) P0' Q by (rule round_to_tick_size_positive)
    with call have r: "round_binary64 (of_int (round_half_even Q) * T) = Some r"
      and s: "s = False"
      by (auto simp: fl_round_def n_def split: option.splits)
    obtain Q' where Q': "round_binary64 (r / T) = Some Q'"
        "round_half_even Q' = round_half_even Q"
      using tick_roundtrip[OF T P0 Q r] by blast
    have "0 \<le> of_int (round_half_even Q) * T"
    proof -
      have "0 \<le> P / T" using P0' T(1) by simp
      with Q have "0 \<le> Q" by (rule round_binary64_nonneg)
      then have "0 \<le> round_half_even Q" by (rule round_half_even_nonneg)
      with T(1) show ?thesis by simp
    qed
    with r have r0: "0 \<le> r" by (rule round_binary64_nonneg)
    have "round_to_tick_size (Finite False r) (Finite False T)
        = Inr (fl_round False (of_int (round_half_even Q') * T))"
      using T(1) r0 Q'(1) by (rule round_to_tick_size_positive)
    also have "\<dots> = Inr (Finite False r)"
      using r by (simp add: Q'(2) fl_round_def)
    finally show ?thesis using s Finite st by simp
  qed
qed

text \<open>The price \<open>86486.17\<close> with the tick size \<open>0.5\<close>: 172972 ticks, \<open>86486.0\<close>.\<close>

theorem round_to_tick_size_idempotent_witness:
  "round_to_tick_size (float_literal (8648617 / 100)) (float_literal (1 / 2))
     = Inr (Finite False 86486)
   \<and> round_to_tick_size (Finite False 86486) (float_literal (1 / 2)) = Inr (Finite False 86486)"
proof -
  have f: "is_float (float_literal (8648617 / 100))" "is_float (float_literal (1 / 2))"
    by (simp_all add: literal_86486_17 literal_half) (simp_all add: float_eval)
  have p: "fl_gt (float_literal (8648617 / 100)) (Finite False 0)"
    "fl_gt (float_literal (1 / 2)) (Finite False 0)"
    by (simp_all add: literal_86486_17 literal_half fl_gt_def sval_def)
  from round_to_tick_size_idempotent[OF f p round_86486_17]
  show ?thesis by (simp add: round_86486_17)
qed

text \<open>
  C4 as stated fails where the product overflows: for the positive floats
  \<open>p = 3 * 2^1022\<close> and \<open>t = 2^1023\<close>, \<open>p / t\<close> is \<open>1.5\<close>, which rounds to 2,
  and \<open>2 * t\<close> is \<open>inf\<close>; on that value the function raises \<open>OverflowError\<close>
  instead of returning it.
\<close>

theorem round_to_tick_size_overflow_counterexample:
  "is_float (Finite False (3 * 2 ^ 1022)) \<and> is_float (Finite False (2 ^ 1023))
   \<and> fl_gt (Finite False (3 * 2 ^ 1022)) (Finite False 0)
   \<and> fl_gt (Finite False (2 ^ 1023)) (Finite False 0)
   \<and> round_to_tick_size (Finite False (3 * 2 ^ 1022)) (Finite False (2 ^ 1023))
       = Inr (Infinity False)
   \<and> round_to_tick_size (Infinity False) (Finite False (2 ^ 1023)) = Inl OverflowError"
  by (simp add: round_to_tick_size_def float_eval fl_gt_def sval_def)

end
